theory Spec2Isabelle
  imports Complex_Main "HOL-Library.Char_ord" "HOL-Library.List_Lexorder"
begin

section \<open>Kara: annotation registry, undo commands, sidecar files, page navigation\<close>

text \<open>
  A shallow embedding of the parts of Kara that its specification talks about: the
  cropping helper of the image viewer, the ready flag of the detector and the OCR
  engine, the annotation controller with its JSON sidecar files, the bubble registry of
  the main window with the three undo commands, and page navigation.

  Conventions. A Python object that is compared with \<open>is\<close> is a reference (a natural
  number); a method that mutates \<open>self\<close> takes the object's record and returns the new
  one; a \<open>raise\<close> is a value: \<open>Inl e\<close>, or \<open>Some e\<close> beside the state that the call
  leaves. An exception is its class (\<open>OtherError\<close> with the name of the class, for a
  class that the program itself never raises) and, for \<open>RuntimeError\<close>, its message.
\<close>

datatype exn =
    RuntimeError string
  | ValueError
  | OverflowError
  | TypeError
  | AttributeError
  | KeyError
  | IndexError
  | RecursionError
  | UnicodeEncodeError
  | FileNotFoundError
  | FileExistsError
  | IsADirectoryError
  | NotADirectoryError
  | OtherError string

section \<open>Floats\<close>

text \<open>
  A Python float, which is also the \<open>qreal\<close> of a \<open>QRectF\<close>: a finite number, one of the
  two infinities, or NaN. The program copies, compares and truncates floats and does no
  arithmetic on them, so a finite float is the real number it stands for.
\<close>

datatype double =
    Finite real
  | PosInf
  | NegInf
  | NaN

definition is_finite :: "double \<Rightarrow> bool" where
  "is_finite d = (case d of Finite x \<Rightarrow> True | _ \<Rightarrow> False)"

text \<open>\<open>a < b\<close> on floats: false whenever one of them is NaN.\<close>

definition float_less :: "double \<Rightarrow> double \<Rightarrow> bool" where
  "float_less a b =
     (case a of
        NaN \<Rightarrow> False
      | PosInf \<Rightarrow> False
      | NegInf \<Rightarrow> (case b of NaN \<Rightarrow> False | NegInf \<Rightarrow> False | _ \<Rightarrow> True)
      | Finite x \<Rightarrow> (case b of Finite y \<Rightarrow> x < y | PosInf \<Rightarrow> True | _ \<Rightarrow> False))"

text \<open>
  \<open>int(x)\<close> on a float truncates towards zero; it raises \<open>ValueError\<close> on NaN and
  \<open>OverflowError\<close> on an infinity.
\<close>

definition py_int :: "double \<Rightarrow> exn + int" where
  "py_int d =
     (case d of
        Finite x \<Rightarrow> Inr (if 0 \<le> x then \<lfloor>x\<rfloor> else \<lceil>x\<rceil>)
      | PosInf \<Rightarrow> Inl OverflowError
      | NegInf \<Rightarrow> Inl OverflowError
      | NaN \<Rightarrow> Inl ValueError)"

section \<open>PanelViewer.crop\_region\<close>

text \<open>A \<open>QRectF\<close>: \<open>x()\<close>, \<open>y()\<close>, \<open>width()\<close>, \<open>height()\<close>.\<close>

record QRectF =
  qx :: double
  qy :: double
  qwidth :: double
  qheight :: double

definition finite_rect :: "QRectF \<Rightarrow> bool" where
  "finite_rect rect =
     (is_finite (qx rect) \<and> is_finite (qy rect) \<and> is_finite (qwidth rect) \<and>
      is_finite (qheight rect))"

text \<open>
  The image \<open>cv2.imread\<close> returns: an array of shape \<open>(height, width, 3)\<close>; \<open>px i j\<close> is
  the pixel of row \<open>i\<close> and column \<open>j\<close>.
\<close>

record ndarray =
  height :: nat
  width :: nat
  px :: "nat \<Rightarrow> nat \<Rightarrow> nat \<times> nat \<times> nat"

text \<open>
  A slice \<open>lo:hi\<close> of an axis of length \<open>n\<close>: a negative bound counts from the end, both
  bounds are clipped to the axis, and an empty range gives length 0. The result is the
  first index and the number of indices taken.
\<close>

definition slice_bound :: "nat \<Rightarrow> int \<Rightarrow> int" where
  "slice_bound n i = (if i < 0 then max 0 (i + int n) else min i (int n))"

definition slice_range :: "nat \<Rightarrow> int \<Rightarrow> int \<Rightarrow> nat \<times> nat" where
  "slice_range n lo hi =
     (let s = slice_bound n lo; e = slice_bound n hi
      in (nat s, nat (e - s)))"

text \<open>\<open>a[y0:y1, x0:x1]\<close> on the first two axes.\<close>

definition slice2 :: "ndarray \<Rightarrow> int \<Rightarrow> int \<Rightarrow> int \<Rightarrow> int \<Rightarrow> ndarray" where
  "slice2 a y0 y1 x0 x1 =
     (let (r0, nr) = slice_range (height a) y0 y1;
          (c0, nc) = slice_range (width a) x0 x1
      in \<lparr>height = nr, width = nc, px = (\<lambda>i j. px a (r0 + i) (c0 + j))\<rparr>)"

text \<open>
  The two fields of the viewer that \<open>crop_region\<close> reads: \<open>_orig_cv\<close> and whether the
  pixmap of \<open>_photo_item\<close> is null.
\<close>

record PanelViewer =
  orig_cv :: "ndarray option"
  pixmap_is_null :: bool

text \<open>
  The four conversions \<open>int(rect.x())\<close>, \<open>int(rect.y())\<close>, \<open>int(rect.width())\<close> and
  \<open>int(rect.height())\<close>, in the order in which \<open>crop_region\<close> makes them: the first one
  that raises ends the call.
\<close>

definition rect_ints :: "QRectF \<Rightarrow> exn + int \<times> int \<times> int \<times> int" where
  "rect_ints rect =
     (case py_int (qx rect) of
        Inl e \<Rightarrow> Inl e
      | Inr xi \<Rightarrow>
     (case py_int (qy rect) of
        Inl e \<Rightarrow> Inl e
      | Inr yi \<Rightarrow>
     (case py_int (qwidth rect) of
        Inl e \<Rightarrow> Inl e
      | Inr wi \<Rightarrow>
     (case py_int (qheight rect) of
        Inl e \<Rightarrow> Inl e
      | Inr hi \<Rightarrow> Inr (xi, yi, wi, hi)))))"

text \<open>
  The clamped box \<open>(x, y, w, h)\<close> that \<open>crop_region\<close> computes from the four integers
  before it slices.
\<close>

definition crop_box :: "ndarray \<Rightarrow> int \<times> int \<times> int \<times> int \<Rightarrow> int \<times> int \<times> int \<times> int" where
  "crop_box img ints =
     (let (xi, yi, wi, hi) = ints;
          x = max 0 xi;
          y = max 0 yi;
          w = max 0 wi;
          h = max 0 hi;
          h0 = int (height img);
          w0 = int (width img);
          x = min x w0;
          y = min y h0;
          w = min w (w0 - x);
          h = min h (h0 - y)
      in (x, y, w, h))"

text \<open>\<open>crop_region\<close> returns the crop or \<open>None\<close>, or raises what a conversion raises.\<close>

definition crop_region :: "PanelViewer \<Rightarrow> QRectF \<Rightarrow> exn + ndarray option" where
  "crop_region v rect =
     (case orig_cv v of
        None \<Rightarrow> Inr None
      | Some img \<Rightarrow>
          if pixmap_is_null v then Inr None
          else
            (case rect_ints rect of
               Inl e \<Rightarrow> Inl e
             | Inr ints \<Rightarrow>
                 (let (x, y, w, h) = crop_box img ints
                  in if w \<le> 0 \<or> h \<le> 0 then Inr None
                     else Inr (Some (slice2 img y (y + h) x (x + w))))))"

text \<open>
  A 100 by 80 image and the rectangle \<open>(-5.5, 70.9, 30.2, 40)\<close>: the box is clamped to
  \<open>x = 0\<close>, \<open>y = 70\<close>, \<open>w = 30\<close>, \<open>h = 10\<close>. The same rectangle with a NaN \<open>x\<close>, and with
  an infinite width.
\<close>

definition demo_image :: ndarray where
  "demo_image = \<lparr>height = 80, width = 100, px = (\<lambda>i j. (i, j, 0))\<rparr>"

definition demo_viewer :: PanelViewer where
  "demo_viewer = \<lparr>orig_cv = Some demo_image, pixmap_is_null = False\<rparr>"

definition demo_rect :: QRectF where
  "demo_rect =
     \<lparr>qx = Finite (-5.5), qy = Finite 70.9, qwidth = Finite 30.2, qheight = Finite 40\<rparr>"

definition nan_rect :: QRectF where
  "nan_rect = demo_rect\<lparr>qx := NaN\<rparr>"

definition wide_rect :: QRectF where
  "wide_rect = demo_rect\<lparr>qwidth := PosInf\<rparr>"

section \<open>SpeechBubbleDetector and OCREngine: the ready flag\<close>

text \<open>
  Both wrappers start a daemon thread in their constructor; the thread builds the
  third-party model and, if that returns, stores it and then sets the \<open>_ready\<close> event. The
  thread's one effect on the object is the step \<open>load_model\<close> (\<open>ocr_load\<close>). A call into
  third-party code (ultralytics, torch, numpy, PIL, manga\_ocr) is a parameter of the model
  that gives the outcome of the call: the exception it raises, of whatever class, or the
  value it returns.
\<close>

text \<open>
  One box of \<open>results.boxes\<close>, by what the four expressions of the loop body that read it
  give: \<open>box.conf.cpu().item()\<close>, \<open>box.cls.cpu().item()\<close>, and
  \<open>box.xyxy.cpu().numpy().reshape(4).tolist()\<close> and the same for \<open>xywh\<close>, as the four
  numbers that the loop then takes from the list.
\<close>

type_synonym quad = "double \<times> double \<times> double \<times> double"

record yolo_box =
  box_conf :: "exn + double"
  box_cls :: "exn + double"
  box_xyxy :: "exn + quad"
  box_xywh :: "exn + quad"

record Detection =
  cls :: int
  conf :: double
  xyxy :: quad
  xywh :: quad

text \<open>
  A loaded model, by what \<open>self._model(str(image_path))[0]\<close> and the iteration over
  \<open>results.boxes\<close> give for a path.
\<close>

type_synonym yolo = "string \<Rightarrow> exn + yolo_box list"

record SpeechBubbleDetector =
  model_path :: string
  model :: "yolo option"
  detector_ready :: bool

definition SpeechBubbleDetector_init :: "string \<Rightarrow> SpeechBubbleDetector" where
  "SpeechBubbleDetector_init path =
     \<lparr>model_path = path, model = None, detector_ready = False\<rparr>"

text \<open>
  \<open>_load_model\<close>, given the outcome of \<open>YOLO(self.model_path)\<close>: when the constructor
  raises, the thread ends there and the object stays as it is.
\<close>

definition load_model :: "exn + yolo \<Rightarrow> SpeechBubbleDetector \<Rightarrow> SpeechBubbleDetector" where
  "load_model built d =
     (case built of
        Inl e \<Rightarrow> d
      | Inr m \<Rightarrow> d\<lparr>model := Some m, detector_ready := True\<rparr>)"

definition ready :: "SpeechBubbleDetector \<Rightarrow> bool" where
  "ready d = detector_ready d"

text \<open>The body of the loop of \<open>detect\<close> for one box: \<open>None\<close> is \<open>continue\<close>.\<close>

definition to_detection :: "double \<Rightarrow> yolo_box \<Rightarrow> exn + Detection option" where
  "to_detection min_conf b =
     (case box_conf b of
        Inl e \<Rightarrow> Inl e
      | Inr c \<Rightarrow>
          if float_less c min_conf then Inr None
          else
            (case box_cls b of
               Inl e \<Rightarrow> Inl e
             | Inr k \<Rightarrow>
            (case py_int k of
               Inl e \<Rightarrow> Inl e
             | Inr cls_idx \<Rightarrow>
            (case box_xyxy b of
               Inl e \<Rightarrow> Inl e
             | Inr q1 \<Rightarrow>
            (case box_xywh b of
               Inl e \<Rightarrow> Inl e
             | Inr q2 \<Rightarrow>
                 Inr (Some \<lparr>cls = cls_idx, conf = c, xyxy = q1, xywh = q2\<rparr>))))))"

fun detections :: "double \<Rightarrow> yolo_box list \<Rightarrow> exn + Detection list" where
  "detections min_conf [] = Inr []"
| "detections min_conf (b # bs) =
     (case to_detection min_conf b of
        Inl e \<Rightarrow> Inl e
      | Inr found \<Rightarrow>
          (case detections min_conf bs of
             Inl e \<Rightarrow> Inl e
           | Inr ds \<Rightarrow> Inr (case found of None \<Rightarrow> ds | Some det \<Rightarrow> det # ds)))"

text \<open>The message of the \<open>raise\<close> statement of \<open>detect\<close>.\<close>

definition detector_not_ready :: exn where
  "detector_not_ready = RuntimeError ''SpeechBubbleDetector: Model not ready''"

definition detect :: "SpeechBubbleDetector \<Rightarrow> string \<Rightarrow> double \<Rightarrow> exn + Detection list" where
  "detect d image_path min_conf =
     (if \<not> ready d then Inl detector_not_ready
      else
        (case model d of
           None \<Rightarrow> Inl TypeError
         | Some m \<Rightarrow>
             (case m image_path of
                Inl e \<Rightarrow> Inl e
              | Inr boxes \<Rightarrow> detections min_conf boxes)))"

text \<open>
  What \<open>recognize\<close> can be given, by the \<open>isinstance\<close> tests it makes, and the image it
  hands to the OCR model. An image object is a reference.
\<close>

datatype ocr_input =
    InStr string
  | InPath string
  | InArray ndarray
  | InImage nat
  | InOther

text \<open>
  The two calls into PIL: \<open>Image.open(str(img_or_path))\<close> and \<open>Image.fromarray(rgb)\<close>, each
  by its outcome.
\<close>

record PIL =
  Image_open :: "string \<Rightarrow> exn + nat"
  Image_fromarray :: "ndarray \<Rightarrow> exn + nat"

text \<open>A loaded OCR model, by what \<open>self._ocr(image)\<close> gives.\<close>

type_synonym manga_ocr = "nat \<Rightarrow> exn + string"

record OCREngine =
  ocr_model :: "manga_ocr option"
  ocr_ready_flag :: bool

definition OCREngine_init :: OCREngine where
  "OCREngine_init = \<lparr>ocr_model = None, ocr_ready_flag = False\<rparr>"

text \<open>\<open>_load\<close>, given the outcome of \<open>MangaOcr()\<close>.\<close>

definition ocr_load :: "exn + manga_ocr \<Rightarrow> OCREngine \<Rightarrow> OCREngine" where
  "ocr_load built e =
     (case built of
        Inl err \<Rightarrow> e
      | Inr m \<Rightarrow> e\<lparr>ocr_model := Some m, ocr_ready_flag := True\<rparr>)"

definition ocr_ready :: "OCREngine \<Rightarrow> bool" where
  "ocr_ready e = ocr_ready_flag e"

text \<open>\<open>img[..., ::-1]\<close>: the channels of every pixel in reverse order.\<close>

definition reverse_channels :: "ndarray \<Rightarrow> ndarray" where
  "reverse_channels a = a\<lparr>px := (\<lambda>i j. case px a i j of (b, g, r) \<Rightarrow> (r, g, b))\<rparr>"

text \<open>The image that \<open>recognize\<close> builds from its argument, or the exception raised there.\<close>

definition ocr_image :: "PIL \<Rightarrow> ocr_input \<Rightarrow> exn + nat" where
  "ocr_image pil img_or_path =
     (case img_or_path of
        InStr p \<Rightarrow> Image_open pil p
      | InPath p \<Rightarrow> Image_open pil p
      | InArray a \<Rightarrow> Image_fromarray pil (reverse_channels a)
      | InImage n \<Rightarrow> Inr n
      | InOther \<Rightarrow> Inl ValueError)"

text \<open>The message of the \<open>raise\<close> statement of \<open>recognize\<close>.\<close>

definition engine_not_ready :: exn where
  "engine_not_ready = RuntimeError ''OCREngine: model not ready''"

definition recognize :: "PIL \<Rightarrow> OCREngine \<Rightarrow> ocr_input \<Rightarrow> exn + string" where
  "recognize pil e img_or_path =
     (if \<not> ocr_ready e then Inl engine_not_ready
      else
        (case ocr_image pil img_or_path of
           Inl err \<Rightarrow> Inl err
         | Inr im \<Rightarrow>
             (case ocr_model e of
                None \<Rightarrow> Inl TypeError
              | Some m \<Rightarrow> m im)))"

text \<open>
  A box whose four readings return and whose class is a finite number: the loop body
  raises nothing on it.
\<close>

definition readable :: "yolo_box \<Rightarrow> bool" where
  "readable b =
     (case (box_conf b, box_cls b, box_xyxy b, box_xywh b) of
        (Inr c, Inr k, Inr q1, Inr q2) \<Rightarrow> is_finite k
      | _ \<Rightarrow> False)"

text \<open>
  Example data: a model that finds one box on every page, a model whose call raises a
  \<open>RuntimeError\<close> of its own, and the detectors that have loaded them.
\<close>

definition demo_box :: yolo_box where
  "demo_box =
     \<lparr>box_conf = Inr (Finite 0.9), box_cls = Inr (Finite 0),
      box_xyxy = Inr (Finite 10, Finite 20, Finite 40, Finite 60),
      box_xywh = Inr (Finite 25, Finite 40, Finite 30, Finite 40)\<rparr>"

definition demo_yolo :: yolo where
  "demo_yolo image_path = Inr [demo_box]"

definition cuda_yolo :: yolo where
  "cuda_yolo image_path = Inl (RuntimeError ''CUDA error: out of memory'')"

definition demo_detector :: SpeechBubbleDetector where
  "demo_detector = load_model (Inr demo_yolo) (SpeechBubbleDetector_init ''model.pt'')"

definition cuda_detector :: SpeechBubbleDetector where
  "cuda_detector = load_model (Inr cuda_yolo) (SpeechBubbleDetector_init ''model.pt'')"

definition demo_pil :: PIL where
  "demo_pil = \<lparr>Image_open = (\<lambda>p. Inr 0), Image_fromarray = (\<lambda>a. Inr 1)\<rparr>"

definition demo_engine :: OCREngine where
  "demo_engine = ocr_load (Inr (\<lambda>im. Inr ''text'')) OCREngine_init"

definition cuda_engine :: OCREngine where
  "cuda_engine =
     ocr_load (Inr (\<lambda>im. Inl (RuntimeError ''CUDA error: out of memory''))) OCREngine_init"

section \<open>Python values, paths and files\<close>

text \<open>
  A Python \<open>str\<close> is a sequence of code points; a code point from \<open>D800\<close> to \<open>DFFF\<close> is
  a surrogate, which a \<open>str\<close> can hold and UTF-8 cannot encode. \<open>str s\<close> is the \<open>str\<close> of
  the characters \<open>s\<close>.
\<close>

type_synonym pystr = "nat list"

definition str :: "string \<Rightarrow> pystr" where
  "str s = map of_char s"

text \<open>
  The values that \<open>json.loads\<close> can return, and tuples, which \<open>json.dumps\<close> accepts. A
  dict is the list of its items in insertion order; its keys are strings, as
  \<open>json.loads\<close> makes them.
\<close>

datatype pyval =
    PNone
  | PBool bool
  | PInt int
  | PFloat double
  | PStr pystr
  | PList "pyval list"
  | PTuple "pyval list"
  | PDict "(pystr \<times> pyval) list"






text \<open>
  A text can be encoded in UTF-8 when it holds no surrogate. With \<open>ensure_ascii=False\<close>
  the text that \<open>json.dumps\<close> returns holds the code points of every string of the value
  as they are.
\<close>

definition utf8_str :: "pystr \<Rightarrow> bool" where
  "utf8_str s = list_all (\<lambda>c. c < 0xD800 \<or> (0xDFFF < c \<and> c < 0x110000)) s"






text \<open>
  A \<open>pathlib.Path\<close> with at least one component: the components of its parent, and its
  name. \<open>stem\<close> is \<open>PurePath.stem\<close>: the name without its last suffix, where a leading
  or a trailing dot starts no suffix.
\<close>

record path =
  parent :: "string list"
  name :: string


fun index_of :: "'a \<Rightarrow> 'a list \<Rightarrow> nat option" where
  "index_of x [] = None"
| "index_of x (y # ys) = (if y = x then Some 0 else map_option Suc (index_of x ys))"

definition stem :: "string \<Rightarrow> string" where
  "stem nm =
     (case index_of (CHR ''.'') (rev nm) of
        None \<Rightarrow> nm
      | Some k \<Rightarrow>
          (let i = length nm - 1 - k
           in if 0 < i \<and> i < length nm - 1 then take i nm else nm))"












section \<open>AnnotationController\<close>

text \<open>
  The dataclass \<open>AnnotationData\<close>. Python checks none of the declared field types, and
  \<open>load\<close> stores whatever the file holds, so every field is a Python value. The field
  \<open>done\<close> is \<open>done_flag\<close> here.
\<close>

record AnnotationData =
  rect :: pyval
  kind :: pyval
  done_flag :: pyval
  ocr :: pyval
  translation :: pyval

datatype signal =
    annotations_loaded path "AnnotationData list"
  | annotations_saved path
  | bubble_added AnnotationData
  | bubble_removed int
  | bubble_updated AnnotationData
  | annotations_cleared

record AnnotationController =
  annotations :: "AnnotationData list"
  ctl_path :: "path option"

definition AnnotationController_init :: AnnotationController where
  "AnnotationController_init = \<lparr>annotations = [], ctl_path = None\<rparr>"









text \<open>
  \<open>a.id\<close>: the dataclass declares \<open>rect\<close>, \<open>kind\<close>, \<open>done\<close>, \<open>ocr\<close> and \<open>translation\<close>, and
  nothing in the repository gives an annotation an \<open>id\<close>, so the attribute access raises.
\<close>

definition annotation_id :: "AnnotationData \<Rightarrow> exn + int" where
  "annotation_id a = Inl AttributeError"

text \<open>
  \<open>next((i for i, a in enumerate(self.annotations) if a.id == bubble_id), None)\<close>.
\<close>

fun find_annotation :: "nat \<Rightarrow> AnnotationData list \<Rightarrow> int \<Rightarrow> exn + nat option" where
  "find_annotation i [] bubble_id = Inr None"
| "find_annotation i (a # as) bubble_id =
     (case annotation_id a of
        Inl e \<Rightarrow> Inl e
      | Inr v \<Rightarrow> if v = bubble_id then Inr (Some i) else find_annotation (Suc i) as bubble_id)"

text \<open>\<open>del xs[i]\<close> for an index inside the list.\<close>

definition del_at :: "nat \<Rightarrow> 'a list \<Rightarrow> 'a list" where
  "del_at i xs = take i xs @ drop (Suc i) xs"

text \<open>
  \<open>remove\<close> returns the exception that leaves it (if any), the controller and the signals
  emitted.
\<close>

definition remove ::
  "AnnotationController \<Rightarrow> int \<Rightarrow> exn option \<times> AnnotationController \<times> signal list" where
  "remove self bubble_id =
     (case find_annotation 0 (annotations self) bubble_id of
        Inl e \<Rightarrow> (Some e, self, [])
      | Inr None \<Rightarrow> (None, self, [])
      | Inr (Some idx) \<Rightarrow>
          (None, self\<lparr>annotations := del_at idx (annotations self)\<rparr>,
           [bubble_removed bubble_id]))"













definition demo_annotation :: AnnotationData where
  "demo_annotation =
     \<lparr>rect = PTuple [PFloat (Finite 10), PFloat (Finite 20), PFloat (Finite 30),
                     PFloat (Finite 40)],
      kind = PStr (str ''bubble''),
      done_flag = PBool True, ocr = PStr (str ''abc''), translation = PStr (str ''xyz'')\<rparr>"












section \<open>MainWindow: the bubble registry\<close>

text \<open>
  Rectangles (\<open>MoveableRectItem\<close>) and list entries (\<open>QListWidgetItem\<close>) are objects that
  the program compares with \<open>is\<close>, so the model refers to them by reference. The window
  keeps the rectangle objects in \<open>rect_objs\<close>; \<open>isinstance(_, MoveableRectItem)\<close> is
  false for a reference outside its domain. Such a reference is a \<open>QGraphicsRectItem\<close> of
  another class when it is in the domain of \<open>plain_rects\<close>, which gives its position and
  rectangle (the program creates none), and otherwise an item without \<open>setRect\<close> (the
  pixmap item of the photo, for one). Every
  \<open>QListWidgetItem\<close> the window has created is in \<open>list_items\<close>, and its reference is its
  position there, so a new item is a new reference.
\<close>

record MoveableRectItem =
  item_kind :: string
  item_done :: bool
  item_pos :: "double \<times> double"
  item_rect :: QRectF

record QListWidgetItem =
  li_text :: string
  li_checked :: bool
  li_data :: nat

text \<open>
  The fields of the window and of its viewer that the registry operations read or
  write: \<open>_rect_list\<close>, the items of the \<open>QListWidget\<close> \<open>bubble_list\<close> in row order, the
  graphics items in the viewer's scene, the viewer's \<open>_cur_rects\<close> and \<open>_dirty\<close>.
  \<open>destroyed\<close> are the list items that \<open>QListWidget.clear()\<close> has deleted: Qt documents
  that \<open>clear()\<close> deletes its items permanently, and the binding raises \<open>RuntimeError\<close>
  when a deleted item is used. The progress bar, the window title, the status line, the
  selection, \<open>_last_geom\<close> and the signal connections are not part of the model: none of
  the operations below reads them.
\<close>

record MainWindow =
  rect_objs :: "nat \<Rightarrow> MoveableRectItem option"
  plain_rects :: "nat \<Rightarrow> ((double \<times> double) \<times> QRectF) option"
  list_items :: "QListWidgetItem list"
  destroyed :: "nat set"
  rect_list :: "(nat \<times> nat) list"
  bubble_list :: "nat list"
  scene :: "nat set"
  cur_rects :: "nat list"
  dirty :: bool

definition MainWindow_init :: "(nat \<Rightarrow> MoveableRectItem option) \<Rightarrow> MainWindow" where
  "MainWindow_init objs =
     \<lparr>rect_objs = objs, plain_rects = (\<lambda>r. None), list_items = [], destroyed = {},
      rect_list = [], bubble_list = [], scene = {}, cur_rects = [], dirty = False\<rparr>"

text \<open>The decimal digits of a number, as an f-string prints it.\<close>

fun nat_str :: "nat \<Rightarrow> string" where
  "nat_str n =
     (if n < 10 then [char_of (48 + n)] else nat_str (n div 10) @ [char_of (48 + n mod 10)])"

declare nat_str.simps [simp del]

text \<open>\<open>list.insert(i, x)\<close> for \<open>i \<ge> 0\<close>: an index beyond the end appends.\<close>

definition py_insert :: "nat \<Rightarrow> 'a \<Rightarrow> 'a list \<Rightarrow> 'a list" where
  "py_insert i x xs = take i xs @ x # drop i xs"

text \<open>
  \<open>QListWidget.insertItem(row, item)\<close> (and \<open>addItem\<close>, which inserts at \<open>count()\<close>): Qt
  ignores an item that already belongs to a list widget, and clips the row to the list.
\<close>

definition insertItem :: "nat \<Rightarrow> nat \<Rightarrow> nat list \<Rightarrow> nat list" where
  "insertItem row li items = (if li \<in> set items then items else py_insert row li items)"

text \<open>\<open>QListWidget.takeItem(QListWidget.row(li))\<close>: the row is -1, and nothing is taken, when
  the item is not in the widget.\<close>

definition take_item :: "nat \<Rightarrow> nat list \<Rightarrow> nat list" where
  "take_item li items = (case index_of li items of None \<Rightarrow> items | Some k \<Rightarrow> del_at k items)"

text \<open>
  The text of a new list entry: the label of the rectangle's kind and one more than the
  number of registered rectangles of that kind.
\<close>

definition bubble_text :: "MainWindow \<Rightarrow> string \<Rightarrow> string" where
  "bubble_text w knd =
     (let existing = filter (\<lambda>q. map_option item_kind (rect_objs w q) = Some knd)
                       (map snd (rect_list w));
          label = (if knd = ''bubble'' then ''Bubble'' else ''Free Text'')
      in label @ '' '' @ nat_str (length existing + 1))"

definition add_bubble :: "MainWindow \<Rightarrow> nat \<Rightarrow> nat option \<times> MainWindow" where
  "add_bubble w rect_item =
     (case rect_objs w rect_item of
        None \<Rightarrow> (None, w)
      | Some r \<Rightarrow>
          if rect_item \<in> snd ` set (rect_list w) then (None, w)
          else
            (let li = length (list_items w);
                 w = w\<lparr>list_items := list_items w @
                                       [\<lparr>li_text = bubble_text w (item_kind r),
                                         li_checked = item_done r, li_data = rect_item\<rparr>]\<rparr>;
                 w = w\<lparr>rect_list := rect_list w @ [(li, rect_item)]\<rparr>;
                 w = w\<lparr>bubble_list := insertItem (length (bubble_list w)) li (bubble_list w)\<rparr>
             in (Some li, w)))"

text \<open>
  \<open>_remove_bubble(idx)\<close>: \<open>list.pop(idx)\<close> counts a negative index from the end and raises
  \<open>IndexError\<close> outside the list. The result is the exception that leaves the call (if
  any) and the window as the call leaves it.
\<close>

definition remove_bubble :: "MainWindow \<Rightarrow> int \<Rightarrow> exn option \<times> MainWindow" where
  "remove_bubble w idx =
     (let n = int (length (rect_list w));
          j = (if idx < 0 then idx + n else idx)
      in if j < 0 \<or> n \<le> j then (Some IndexError, w)
         else
           (let (li, r) = rect_list w ! nat j;
                w = w\<lparr>rect_list := del_at (nat j) (rect_list w)\<rparr>;
                w = w\<lparr>scene := scene w - {r}\<rparr>
            in if li \<in> destroyed w then (Some (RuntimeError ''deleted''), w)
               else (None, w\<lparr>bubble_list := take_item li (bubble_list w)\<rparr>)))"

definition remove_bubble_for :: "MainWindow \<Rightarrow> nat \<Rightarrow> exn option \<times> MainWindow" where
  "remove_bubble_for w r =
     (case index_of r (map snd (rect_list w)) of
        None \<Rightarrow> (None, w)
      | Some idx \<Rightarrow> remove_bubble w (int idx))"

definition clear_bubbles :: "MainWindow \<Rightarrow> MainWindow" where
  "clear_bubbles w =
     (let w = w\<lparr>scene := scene w - snd ` set (rect_list w)\<rparr>;
          w = w\<lparr>destroyed := destroyed w \<union> set (bubble_list w), bubble_list := []\<rparr>
      in w\<lparr>rect_list := []\<rparr>)"

text \<open>\<open>PanelViewer.add_graphics_item\<close> and \<open>MainWindow._mark_dirty\<close>.\<close>

definition add_graphics_item :: "MainWindow \<Rightarrow> nat \<Rightarrow> MainWindow" where
  "add_graphics_item w item =
     (let w = w\<lparr>scene := insert item (scene w)\<rparr>
      in if rect_objs w item \<noteq> None then w\<lparr>cur_rects := cur_rects w @ [item]\<rparr> else w)"

definition mark_dirty :: "MainWindow \<Rightarrow> MainWindow" where
  "mark_dirty w = (if \<not> dirty w then w\<lparr>dirty := True\<rparr> else w)"

section \<open>The undo commands\<close>

text \<open>
  A command is the record of its own fields (the reference to the window is the window
  that is passed along). Every method returns the exception that leaves it (if any), the
  command as the call leaves it, and the window.
\<close>

record AddBubbleCommand =
  ab_rect :: nat
  ab_list_item :: "nat option"

definition AddBubbleCommand_init :: "nat \<Rightarrow> AddBubbleCommand" where
  "AddBubbleCommand_init rect_item = \<lparr>ab_rect = rect_item, ab_list_item = None\<rparr>"

definition AddBubbleCommand_redo ::
  "AddBubbleCommand \<Rightarrow> MainWindow \<Rightarrow> exn option \<times> AddBubbleCommand \<times> MainWindow" where
  "AddBubbleCommand_redo c w =
     (let w = w\<lparr>scene := insert (ab_rect c) (scene w)\<rparr>;
          (li, w) = add_bubble w (ab_rect c)
      in (None, c\<lparr>ab_list_item := li\<rparr>, w))"

definition AddBubbleCommand_undo ::
  "AddBubbleCommand \<Rightarrow> MainWindow \<Rightarrow> exn option \<times> AddBubbleCommand \<times> MainWindow" where
  "AddBubbleCommand_undo c w =
     (let (e, w) = remove_bubble_for w (ab_rect c) in (e, c, w))"

text \<open>
  \<open>RemoveBubbleCommand.__init__\<close> scans the rows of \<open>bubble_list\<close> for the item whose
  \<open>UserRole\<close> data is the rectangle; \<open>_row\<close> and \<open>_listitem\<close> stay unset when there is none.
\<close>

record RemoveBubbleCommand =
  rb_rect_item :: nat
  rb_row :: "nat option"
  rb_listitem :: "nat option"

fun scan_rows :: "QListWidgetItem list \<Rightarrow> nat \<Rightarrow> nat \<Rightarrow> nat list \<Rightarrow> (nat \<times> nat) option" where
  "scan_rows objs rect_item row [] = None"
| "scan_rows objs rect_item row (li # lis) =
     (if li < length objs \<and> li_data (objs ! li) = rect_item then Some (row, li)
      else scan_rows objs rect_item (Suc row) lis)"

definition RemoveBubbleCommand_init :: "MainWindow \<Rightarrow> nat \<Rightarrow> RemoveBubbleCommand" where
  "RemoveBubbleCommand_init w rect_item =
     (case scan_rows (list_items w) rect_item 0 (bubble_list w) of
        None \<Rightarrow> \<lparr>rb_rect_item = rect_item, rb_row = None, rb_listitem = None\<rparr>
      | Some (row, li) \<Rightarrow> \<lparr>rb_rect_item = rect_item, rb_row = Some row, rb_listitem = Some li\<rparr>)"

definition RemoveBubbleCommand_redo ::
  "RemoveBubbleCommand \<Rightarrow> MainWindow \<Rightarrow> exn option \<times> RemoveBubbleCommand \<times> MainWindow" where
  "RemoveBubbleCommand_redo c w =
     (let (e, w) = remove_bubble_for w (rb_rect_item c) in (e, c, w))"

definition RemoveBubbleCommand_undo ::
  "RemoveBubbleCommand \<Rightarrow> MainWindow \<Rightarrow> exn option \<times> RemoveBubbleCommand \<times> MainWindow" where
  "RemoveBubbleCommand_undo c w =
     (case (rb_row c, rb_listitem c) of
        (Some row, Some li) \<Rightarrow>
          (let w = w\<lparr>rect_list := py_insert row (li, rb_rect_item c) (rect_list w)\<rparr>
           in if li \<in> destroyed w then (Some (RuntimeError ''deleted''), c, w)
              else
                (let w = w\<lparr>bubble_list := insertItem row li (bubble_list w)\<rparr>;
                     w = add_graphics_item w (rb_rect_item c)
                 in (None, c, mark_dirty w)))
      | _ \<Rightarrow> (Some AttributeError, c, w))"

text \<open>
  \<open>MoveBubbleCommand._apply\<close>: \<open>setPos\<close> and \<open>setRect\<close> on the item. The call of
  \<open>_on_programmatic_move\<close> that follows selects the item's list entry and refreshes the
  property panel with its signals blocked; it changes nothing that is modelled here.
\<close>

record MoveBubbleCommand =
  mb_item :: nat
  mb_old :: QRectF
  mb_new :: QRectF

definition MoveBubbleCommand_init :: "nat \<Rightarrow> QRectF \<Rightarrow> QRectF \<Rightarrow> MoveBubbleCommand" where
  "MoveBubbleCommand_init rect_item old_geom new_geom =
     \<lparr>mb_item = rect_item, mb_old = old_geom, mb_new = new_geom\<rparr>"

definition MoveBubbleCommand_apply ::
  "MoveBubbleCommand \<Rightarrow> QRectF \<Rightarrow> MainWindow \<Rightarrow> exn option \<times> MoveBubbleCommand \<times> MainWindow" where
  "MoveBubbleCommand_apply c scene_rect w =
     (let new_pos = (qx scene_rect, qy scene_rect);
          new_rect = \<lparr>qx = Finite 0, qy = Finite 0, qwidth = qwidth scene_rect,
                      qheight = qheight scene_rect\<rparr>
      in case rect_objs w (mb_item c) of
           Some r \<Rightarrow>
             (let r = r\<lparr>item_pos := new_pos\<rparr>;
                  r = r\<lparr>item_rect := new_rect\<rparr>
              in (None, c, w\<lparr>rect_objs := (rect_objs w)(mb_item c := Some r)\<rparr>))
         | None \<Rightarrow>
             (case plain_rects w (mb_item c) of
                Some g \<Rightarrow>
                  (None, c, w\<lparr>plain_rects := (plain_rects w)(mb_item c := Some (new_pos, new_rect))\<rparr>)
              | None \<Rightarrow> (Some AttributeError, c, w)))"

definition MoveBubbleCommand_undo ::
  "MoveBubbleCommand \<Rightarrow> MainWindow \<Rightarrow> exn option \<times> MoveBubbleCommand \<times> MainWindow" where
  "MoveBubbleCommand_undo c w = MoveBubbleCommand_apply c (mb_old c) w"

definition MoveBubbleCommand_redo ::
  "MoveBubbleCommand \<Rightarrow> MainWindow \<Rightarrow> exn option \<times> MoveBubbleCommand \<times> MainWindow" where
  "MoveBubbleCommand_redo c w = MoveBubbleCommand_apply c (mb_new c) w"

section \<open>Sequences of registry calls\<close>

text \<open>
  The calls that claim C1 names, and the two that go with them: constructing a
  \<open>RemoveBubbleCommand\<close> (the commands made so far are kept in a list, and \<open>undo\<close> and
  \<open>redo\<close> name one by its position) and its \<open>redo\<close>. A call that raises leaves the window
  as it is at the \<open>raise\<close>, and the next call starts from there, as the event loop goes
  on after an exception in a slot.
\<close>

datatype registry_call =
    Add_bubble nat
  | Remove_bubble int
  | Remove_bubble_for nat
  | Clear_bubbles
  | New_remove_command nat
  | Redo_remove nat
  | Undo_remove nat

record session =
  window :: MainWindow
  commands :: "RemoveBubbleCommand list"

definition step :: "registry_call \<Rightarrow> session \<Rightarrow> session" where
  "step call s =
     (case call of
        Add_bubble r \<Rightarrow> s\<lparr>window := snd (add_bubble (window s) r)\<rparr>
      | Remove_bubble idx \<Rightarrow> s\<lparr>window := snd (remove_bubble (window s) idx)\<rparr>
      | Remove_bubble_for r \<Rightarrow> s\<lparr>window := snd (remove_bubble_for (window s) r)\<rparr>
      | Clear_bubbles \<Rightarrow> s\<lparr>window := clear_bubbles (window s)\<rparr>
      | New_remove_command r \<Rightarrow>
          s\<lparr>commands := commands s @ [RemoveBubbleCommand_init (window s) r]\<rparr>
      | Redo_remove k \<Rightarrow>
          (if k < length (commands s)
           then s\<lparr>window := snd (snd (RemoveBubbleCommand_redo (commands s ! k) (window s)))\<rparr>
           else s)
      | Undo_remove k \<Rightarrow>
          (if k < length (commands s)
           then s\<lparr>window := snd (snd (RemoveBubbleCommand_undo (commands s ! k) (window s)))\<rparr>
           else s))"

primrec run :: "session \<Rightarrow> registry_call list \<Rightarrow> session" where
  "run s [] = s"
| "run s (call # calls) = run (step call s) calls"

definition session_init :: "(nat \<Rightarrow> MoveableRectItem option) \<Rightarrow> session" where
  "session_init objs = \<lparr>window = MainWindow_init objs, commands = []\<rparr>"

text \<open>
  The property of claim C1: \<open>_rect_list\<close> and \<open>bubble_list\<close> have the same length, and the
  item of row \<open>i\<close> is the list item of the \<open>i\<close>-th pair.
\<close>

definition consistent :: "MainWindow \<Rightarrow> bool" where
  "consistent w =
     (length (rect_list w) = length (bubble_list w) \<and>
      (\<forall>i < length (bubble_list w). bubble_list w ! i = fst (rect_list w ! i)))"

text \<open>
  A call of \<open>undo\<close> is allowed when the command's list item is out of the list widget
  and has not been destroyed. The command's own \<open>redo\<close> takes the item out of the widget;
  nothing in the program keeps \<open>undo\<close> from being called in another state, and the undo
  stack is never cleared.
\<close>

definition undo_allowed :: "MainWindow \<Rightarrow> RemoveBubbleCommand \<Rightarrow> bool" where
  "undo_allowed w c =
     (case rb_listitem c of
        None \<Rightarrow> True
      | Some li \<Rightarrow> li \<notin> set (bubble_list w) \<and> li \<notin> destroyed w)"

definition call_allowed :: "session \<Rightarrow> registry_call \<Rightarrow> bool" where
  "call_allowed s call =
     (case call of
        Undo_remove k \<Rightarrow> k < length (commands s) \<longrightarrow> undo_allowed (window s) (commands s ! k)
      | _ \<Rightarrow> True)"

primrec admissible :: "session \<Rightarrow> registry_call list \<Rightarrow> bool" where
  "admissible s [] = True"
| "admissible s (call # calls) = (call_allowed s call \<and> admissible (step call s) calls)"

text \<open>
  What every window reached by admissible calls satisfies: the list widget holds the
  list items of the pairs, in order and without repetition; no item in it is destroyed;
  every item is one the window created, and the data of a registered item is the
  rectangle it is paired with.
\<close>

definition registry_ok :: "MainWindow \<Rightarrow> bool" where
  "registry_ok w =
     (bubble_list w = map fst (rect_list w) \<and>
      distinct (bubble_list w) \<and>
      set (bubble_list w) \<inter> destroyed w = {} \<and>
      (\<forall>li \<in> set (bubble_list w) \<union> destroyed w. li < length (list_items w)) \<and>
      (\<forall>p \<in> set (rect_list w). li_data (list_items w ! fst p) = snd p))"

definition command_ok :: "MainWindow \<Rightarrow> RemoveBubbleCommand \<Rightarrow> bool" where
  "command_ok w c =
     (case rb_listitem c of
        None \<Rightarrow> True
      | Some li \<Rightarrow> li < length (list_items w) \<and> li_data (list_items w ! li) = rb_rect_item c)"

definition session_ok :: "session \<Rightarrow> bool" where
  "session_ok s = (registry_ok (window s) \<and> list_all (command_ok (window s)) (commands s))"

text \<open>Example data: three rectangles.\<close>

definition demo_objs :: "nat \<Rightarrow> MoveableRectItem option" where
  "demo_objs r =
     (if r < 3
      then Some \<lparr>item_kind = (if r = 2 then ''free-text'' else ''bubble''), item_done = False,
                 item_pos = (Finite 10, Finite 20),
                 item_rect = \<lparr>qx = Finite 0, qy = Finite 0, qwidth = Finite 30,
                              qheight = Finite 40\<rparr>\<rparr>
      else None)"

text \<open>
  A sequence in which every \<open>undo\<close> follows its \<open>redo\<close>; one that calls \<open>undo\<close> on a
  command that was never redone; one that does so with other calls in between and then
  removes by index; and the calls that Delete, Undo, a page change, Redo and Undo make
  through the undo stack, where every \<open>undo\<close> follows a \<open>redo\<close> and the second one finds
  its list item destroyed.
\<close>

definition paired_calls :: "registry_call list" where
  "paired_calls =
     [Add_bubble 0, Add_bubble 1, New_remove_command 0, Redo_remove 0, Undo_remove 0,
      Remove_bubble (- 1), Add_bubble 2]"

definition unpaired_calls :: "registry_call list" where
  "unpaired_calls = [Add_bubble 0, New_remove_command 0, Undo_remove 0]"

definition interleaved_calls :: "registry_call list" where
  "interleaved_calls =
     [Add_bubble 1, Add_bubble 2, Add_bubble 0, New_remove_command 0,
      Remove_bubble_for 1, Remove_bubble_for 2, Add_bubble 1, Add_bubble 2,
      Undo_remove 0, Remove_bubble 2]"

definition stack_calls :: "registry_call list" where
  "stack_calls =
     [Add_bubble 0, New_remove_command 0, Redo_remove 0, Undo_remove 0, Clear_bubbles,
      Redo_remove 0, Undo_remove 0]"

definition demo_window :: MainWindow where
  "demo_window = window (run (session_init demo_objs) [Add_bubble 0, Add_bubble 1, Add_bubble 2])"

section \<open>Sequences of redo and undo on one command\<close>

datatype command_call = Redo | Undo

primrec run_add ::
  "AddBubbleCommand \<Rightarrow> MainWindow \<Rightarrow> command_call list \<Rightarrow> AddBubbleCommand \<times> MainWindow" where
  "run_add c w [] = (c, w)"
| "run_add c w (call # calls) =
     (let (e, c', w') = (case call of Redo \<Rightarrow> AddBubbleCommand_redo c w
                                    | Undo \<Rightarrow> AddBubbleCommand_undo c w)
      in run_add c' w' calls)"

primrec run_remove ::
  "RemoveBubbleCommand \<Rightarrow> MainWindow \<Rightarrow> command_call list \<Rightarrow> RemoveBubbleCommand \<times> MainWindow"
  where
  "run_remove c w [] = (c, w)"
| "run_remove c w (call # calls) =
     (let (e, c', w') = (case call of Redo \<Rightarrow> RemoveBubbleCommand_redo c w
                                    | Undo \<Rightarrow> RemoveBubbleCommand_undo c w)
      in run_remove c' w' calls)"

primrec run_move ::
  "MoveBubbleCommand \<Rightarrow> MainWindow \<Rightarrow> command_call list \<Rightarrow> MoveBubbleCommand \<times> MainWindow" where
  "run_move c w [] = (c, w)"
| "run_move c w (call # calls) =
     (let (e, c', w') = (case call of Redo \<Rightarrow> MoveBubbleCommand_redo c w
                                    | Undo \<Rightarrow> MoveBubbleCommand_undo c w)
      in run_move c' w' calls)"

text \<open>
  The geometry of an item: its position and its local rectangle. \<open>placed g\<close> is the
  geometry that the scene rectangle \<open>g\<close> describes: position \<open>(g.x, g.y)\<close> and local
  rectangle \<open>(0, 0, g.width, g.height)\<close>.
\<close>

definition geometry :: "MainWindow \<Rightarrow> nat \<Rightarrow> ((double \<times> double) \<times> QRectF) option" where
  "geometry w item = map_option (\<lambda>r. (item_pos r, item_rect r)) (rect_objs w item)"

definition placed :: "QRectF \<Rightarrow> (double \<times> double) \<times> QRectF" where
  "placed g =
     ((qx g, qy g), \<lparr>qx = Finite 0, qy = Finite 0, qwidth = qwidth g, qheight = qheight g\<rparr>)"

definition demo_old :: QRectF where
  "demo_old = \<lparr>qx = Finite 10, qy = Finite 20, qwidth = Finite 30, qheight = Finite 40\<rparr>"

definition demo_new :: QRectF where
  "demo_new =
     \<lparr>qx = Finite 15.5, qy = Finite 25, qwidth = Finite 60, qheight = Finite 35.25\<rparr>"

section \<open>MainWindow: page navigation\<close>























section \<open>Properties\<close>

subsection \<open>PanelViewer.crop\_region (claim C10)\<close>

lemma crop_box_bounds:
  assumes "crop_box img (xi, yi, wi, hi) = (x, y, w, h)"
  shows "0 \<le> x" "0 \<le> y" "x \<le> int (width img)" "y \<le> int (height img)"
    "x + w \<le> int (width img)" "y + h \<le> int (height img)"
proof -
  have x: "x = min (max 0 xi) (int (width img))"
    and y: "y = min (max 0 yi) (int (height img))"
    and w: "w = min (max 0 wi) (int (width img) - x)"
    and h: "h = min (max 0 hi) (int (height img) - y)"
    using assms by (clarsimp simp: crop_box_def Let_def)+
  show "0 \<le> x" "x \<le> int (width img)" by (simp_all add: x)
  show "0 \<le> y" "y \<le> int (height img)" by (simp_all add: y)
  have "w \<le> int (width img) - x" unfolding w by (rule min.cobounded2)
  then show "x + w \<le> int (width img)" by linarith
  have "h \<le> int (height img) - y" unfolding h by (rule min.cobounded2)
  then show "y + h \<le> int (height img)" by linarith
qed

lemma slice_range_inside:
  assumes "0 \<le> lo" "lo \<le> hi" "hi \<le> int n"
  shows "slice_range n lo hi = (nat lo, nat (hi - lo))"
  using assms by (simp add: slice_range_def slice_bound_def Let_def)

lemma slice2_inside:
  assumes "0 \<le> x" "0 \<le> y" "0 \<le> w" "0 \<le> h"
    and "x + w \<le> int (width a)" "y + h \<le> int (height a)"
  shows "slice2 a y (y + h) x (x + w) =
         \<lparr>height = nat h, width = nat w, px = (\<lambda>i j. px a (nat y + i) (nat x + j))\<rparr>"
  using assms by (simp add: slice2_def slice_range_inside)

lemma py_int_finite: "is_finite d \<longleftrightarrow> (\<exists>i. py_int d = Inr i)"
  by (cases d) (simp_all add: is_finite_def py_int_def)

lemma py_int_raises:
  "\<not> is_finite d \<Longrightarrow> py_int d = Inl ValueError \<or> py_int d = Inl OverflowError"
  by (cases d) (simp_all add: is_finite_def py_int_def)

lemma rect_ints_finite: "finite_rect rc \<longleftrightarrow> (\<exists>ints. rect_ints rc = Inr ints)"
proof
  assume "finite_rect rc"
  then obtain xi yi wi hi where "py_int (qx rc) = Inr xi" "py_int (qy rc) = Inr yi"
    "py_int (qwidth rc) = Inr wi" "py_int (qheight rc) = Inr hi"
    unfolding finite_rect_def py_int_finite by blast
  then show "\<exists>ints. rect_ints rc = Inr ints" by (simp add: rect_ints_def)
next
  assume "\<exists>ints. rect_ints rc = Inr ints"
  then show "finite_rect rc"
    unfolding finite_rect_def py_int_finite
    by (auto simp: rect_ints_def split: sum.splits)
qed

lemma rect_ints_raises:
  assumes "\<not> finite_rect rc"
  shows "rect_ints rc = Inl ValueError \<or> rect_ints rc = Inl OverflowError"
proof -
  have c: "\<And>d. (\<exists>i. py_int d = Inr i) \<or> py_int d = Inl ValueError \<or> py_int d = Inl OverflowError"
    using py_int_finite py_int_raises by blast
  from assms obtain e where e: "rect_ints rc = Inl e"
    using rect_ints_finite [of rc] by (cases "rect_ints rc") auto
  then have "e = ValueError \<or> e = OverflowError"
    using c [of "qx rc"] c [of "qy rc"] c [of "qwidth rc"] c [of "qheight rc"]
    by (auto simp: rect_ints_def split: sum.splits)
  with e show ?thesis by simp
qed

text \<open>
  Claim C10, amended. \<open>crop_region\<close> returns \<open>None\<close> when no image is loaded (no raw
  image, or a null pixmap), whatever the rectangle. With an image loaded and a rectangle
  whose four coordinates are finite it returns \<open>None\<close> when the clamped rectangle is
  empty, and otherwise exactly the \<open>h\<close> rows and \<open>w\<close> columns of the image that start at
  row \<open>y\<close> and column \<open>x\<close>, where \<open>0 \<le> x\<close>, \<open>0 \<le> y\<close>, \<open>0 < w\<close>, \<open>0 < h\<close>,
  \<open>x + w \<le> width\<close> and \<open>y + h \<le> height\<close>: the slice is never clipped by the image
  bounds. With an image loaded and a coordinate that is NaN or infinite it raises
  \<open>ValueError\<close> or \<open>OverflowError\<close> and returns nothing.
\<close>

theorem crop_region_safe:
  "(orig_cv v = None \<or> pixmap_is_null v \<longrightarrow> crop_region v rc = Inr None) \<and>
   (\<forall>img. orig_cv v = Some img \<and> \<not> pixmap_is_null v \<longrightarrow>
      (finite_rect rc \<longrightarrow>
         (\<exists>ints x y w h. rect_ints rc = Inr ints \<and> crop_box img ints = (x, y, w, h) \<and>
            (if w \<le> 0 \<or> h \<le> 0 then crop_region v rc = Inr None
             else crop_region v rc =
                    Inr (Some \<lparr>height = nat h, width = nat w,
                               px = (\<lambda>i j. px img (nat y + i) (nat x + j))\<rparr>) \<and>
                  0 \<le> x \<and> 0 \<le> y \<and> 0 < w \<and> 0 < h \<and>
                  x + w \<le> int (width img) \<and> y + h \<le> int (height img)))) \<and>
      (\<not> finite_rect rc \<longrightarrow>
         crop_region v rc = Inl ValueError \<or> crop_region v rc = Inl OverflowError))"
proof (intro conjI allI impI)
  assume "orig_cv v = None \<or> pixmap_is_null v"
  then show "crop_region v rc = Inr None"
    by (auto simp: crop_region_def split: option.splits)
next
  fix img
  assume a: "orig_cv v = Some img \<and> \<not> pixmap_is_null v" and f: "finite_rect rc"
  from f obtain ints where ri: "rect_ints rc = Inr ints"
    using rect_ints_finite by blast
  obtain xi yi wi hi where ints: "ints = (xi, yi, wi, hi)" by (cases ints) auto
  obtain x y w h where box: "crop_box img (xi, yi, wi, hi) = (x, y, w, h)"
    by (cases "crop_box img (xi, yi, wi, hi)") auto
  note b = crop_box_bounds [OF box]
  have "if w \<le> 0 \<or> h \<le> 0 then crop_region v rc = Inr None
        else crop_region v rc =
               Inr (Some \<lparr>height = nat h, width = nat w,
                          px = (\<lambda>i j. px img (nat y + i) (nat x + j))\<rparr>) \<and>
             0 \<le> x \<and> 0 \<le> y \<and> 0 < w \<and> 0 < h \<and>
             x + w \<le> int (width img) \<and> y + h \<le> int (height img)"
  proof (cases "w \<le> 0 \<or> h \<le> 0")
    case True
    with a ri ints box show ?thesis by (auto simp: crop_region_def)
  next
    case False
    then have pos: "0 < w" "0 < h" by auto
    have "slice2 img y (y + h) x (x + w) =
          \<lparr>height = nat h, width = nat w, px = (\<lambda>i j. px img (nat y + i) (nat x + j))\<rparr>"
      using b pos by (intro slice2_inside) auto
    with a ri ints box False b pos show ?thesis by (simp add: crop_region_def)
  qed
  with ri ints box
  show "\<exists>ints x y w h. rect_ints rc = Inr ints \<and> crop_box img ints = (x, y, w, h) \<and>
            (if w \<le> 0 \<or> h \<le> 0 then crop_region v rc = Inr None
             else crop_region v rc =
                    Inr (Some \<lparr>height = nat h, width = nat w,
                               px = (\<lambda>i j. px img (nat y + i) (nat x + j))\<rparr>) \<and>
                  0 \<le> x \<and> 0 \<le> y \<and> 0 < w \<and> 0 < h \<and>
                  x + w \<le> int (width img) \<and> y + h \<le> int (height img))"
    by blast
next
  fix img
  assume a: "orig_cv v = Some img \<and> \<not> pixmap_is_null v" and f: "\<not> finite_rect rc"
  from rect_ints_raises [OF f] a
  show "crop_region v rc = Inl ValueError \<or> crop_region v rc = Inl OverflowError"
    by (auto simp: crop_region_def)
qed

lemma demo_rect_ints: "rect_ints demo_rect = Inr (- 5, 70, 30, 40)"
  by (simp add: rect_ints_def py_int_def demo_rect_def)

lemma demo_crop_box: "crop_box demo_image (- 5, 70, 30, 40) = (0, 70, 30, 10)"
  by (simp add: crop_box_def demo_image_def Let_def)

theorem crop_region_safe_witness:
  "crop_region demo_viewer demo_rect =
     Inr (Some \<lparr>height = 10, width = 30, px = (\<lambda>i j. px demo_image (70 + i) j)\<rparr>) \<and>
   crop_region (demo_viewer\<lparr>orig_cv := None\<rparr>) nan_rect = Inr None \<and>
   (crop_region demo_viewer nan_rect = Inl ValueError \<or>
    crop_region demo_viewer nan_rect = Inl OverflowError)"
proof (intro conjI)
  have pre: "orig_cv demo_viewer = Some demo_image \<and> \<not> pixmap_is_null demo_viewer"
    by (simp add: demo_viewer_def)
  have fin: "finite_rect demo_rect"
    by (simp add: finite_rect_def is_finite_def demo_rect_def)
  from crop_region_safe [of demo_viewer demo_rect] pre fin
  obtain ints x y w h where r: "rect_ints demo_rect = Inr ints"
    "crop_box demo_image ints = (x, y, w, h)"
    "if w \<le> 0 \<or> h \<le> 0 then crop_region demo_viewer demo_rect = Inr None
     else crop_region demo_viewer demo_rect =
            Inr (Some \<lparr>height = nat h, width = nat w,
                       px = (\<lambda>i j. px demo_image (nat y + i) (nat x + j))\<rparr>) \<and>
          0 \<le> x \<and> 0 \<le> y \<and> 0 < w \<and> 0 < h \<and>
          x + w \<le> int (width demo_image) \<and> y + h \<le> int (height demo_image)"
    by blast
  from r(1) have "ints = (- 5, 70, 30, 40)"
    by (simp add: demo_rect_ints)
  with r(2) have "x = 0" "y = 70" "w = 30" "h = 10"
    by (simp_all add: demo_crop_box)
  with r(3) show "crop_region demo_viewer demo_rect =
     Inr (Some \<lparr>height = 10, width = 30, px = (\<lambda>i j. px demo_image (70 + i) j)\<rparr>)"
    by simp
next
  show "crop_region (demo_viewer\<lparr>orig_cv := None\<rparr>) nan_rect = Inr None"
    using crop_region_safe [of "demo_viewer\<lparr>orig_cv := None\<rparr>" nan_rect] by simp
next
  have pre: "orig_cv demo_viewer = Some demo_image \<and> \<not> pixmap_is_null demo_viewer"
    by (simp add: demo_viewer_def)
  have inf: "\<not> finite_rect nan_rect"
    by (simp add: finite_rect_def is_finite_def nan_rect_def)
  from crop_region_safe [of demo_viewer nan_rect] pre inf
  show "crop_region demo_viewer nan_rect = Inl ValueError \<or>
        crop_region demo_viewer nan_rect = Inl OverflowError"
    by blast
qed

text \<open>
  The claim as stated fails for a rectangle with a coordinate that is not a number or
  not finite: with an image loaded, \<open>crop_region\<close> raises at \<open>int(rect.x())\<close> for a NaN
  \<open>x\<close> and at \<open>int(rect.width())\<close> for an infinite width, and returns neither \<open>None\<close> nor
  a crop.
\<close>

theorem crop_region_raises_counterexample:
  "orig_cv demo_viewer = Some demo_image \<and> \<not> pixmap_is_null demo_viewer \<and>
   crop_region demo_viewer nan_rect = Inl ValueError \<and>
   crop_region demo_viewer wide_rect = Inl OverflowError"
  by (simp add: crop_region_def rect_ints_def py_int_def demo_viewer_def nan_rect_def
      wide_rect_def demo_rect_def)

subsection \<open>The ready flag (claim C7)\<close>

lemma detect_not_ready: "\<not> ready d \<Longrightarrow> detect d p c = Inl detector_not_ready"
  by (simp add: detect_def)

lemma detect_ready:
  "ready d \<Longrightarrow> model d = Some m \<Longrightarrow>
   detect d p c = (case m p of Inl e \<Rightarrow> Inl e | Inr boxes \<Rightarrow> detections c boxes)"
  by (simp add: detect_def)

lemma to_detection_readable: "readable b \<Longrightarrow> \<exists>found. to_detection c b = Inr found"
  by (auto simp: readable_def to_detection_def py_int_finite split: sum.splits)

lemma detections_readable: "list_all readable bs \<Longrightarrow> \<exists>ds. detections c bs = Inr ds"
proof (induction bs)
  case Nil
  show ?case by simp
next
  case (Cons b bs)
  then obtain found ds where "to_detection c b = Inr found" "detections c bs = Inr ds"
    using to_detection_readable [of b c] by auto
  then show ?case by simp
qed

lemma recognize_not_ready: "\<not> ocr_ready e \<Longrightarrow> recognize pil e x = Inl engine_not_ready"
  by (simp add: recognize_def)

lemma recognize_ready:
  "ocr_ready e \<Longrightarrow> ocr_model e = Some m \<Longrightarrow>
   recognize pil e x = (case ocr_image pil x of Inl err \<Rightarrow> Inl err | Inr im \<Rightarrow> m im)"
  by (simp add: recognize_def split: sum.splits)

text \<open>
  Claim C7, amended. While \<open>ready()\<close> is false, that is until the load step has stored
  the model and set the flag, \<open>detect\<close> and \<open>recognize\<close> raise the \<open>RuntimeError\<close> of their
  own \<open>raise\<close> statement, whatever their arguments. A new detector or engine is not
  ready, a load step whose constructor raises leaves it not ready, and one whose
  constructor returns makes it ready and stores the model. Once \<open>ready()\<close> is true the
  guard raises nothing: \<open>detect\<close> raises exactly what the model call raises, of whatever
  class (a \<open>RuntimeError\<close> too), and returns when the model call returns boxes that can
  be read; \<open>recognize\<close> raises what building the image raises (\<open>ValueError\<close> for an
  unsupported argument) or else returns or raises what the OCR model does.
\<close>

theorem ready_guards_calls:
  "(\<not> ready d \<longrightarrow> detect d p c = Inl detector_not_ready) \<and>
   (\<not> ocr_ready e \<longrightarrow> recognize pil e x = Inl engine_not_ready) \<and>
   \<not> ready (SpeechBubbleDetector_init path) \<and> \<not> ocr_ready OCREngine_init \<and>
   (ready (load_model (Inl err) d) \<longleftrightarrow> ready d) \<and>
   (ocr_ready (ocr_load (Inl err) e) \<longleftrightarrow> ocr_ready e) \<and>
   ready (load_model (Inr m) d) \<and> model (load_model (Inr m) d) = Some m \<and>
   ocr_ready (ocr_load (Inr om) e) \<and> ocr_model (ocr_load (Inr om) e) = Some om \<and>
   (ready d \<and> model d = Some m \<longrightarrow>
      (\<forall>ex. m p = Inl ex \<longrightarrow> detect d p c = Inl ex) \<and>
      (\<forall>boxes. m p = Inr boxes \<longrightarrow> detect d p c = detections c boxes) \<and>
      (\<forall>boxes. m p = Inr boxes \<and> list_all readable boxes \<longrightarrow>
         (\<exists>ds. detect d p c = Inr ds))) \<and>
   (ocr_ready e \<and> ocr_model e = Some om \<longrightarrow>
      (\<forall>ex. ocr_image pil x = Inl ex \<longrightarrow> recognize pil e x = Inl ex) \<and>
      (\<forall>im. ocr_image pil x = Inr im \<longrightarrow> recognize pil e x = om im))"
proof (intro conjI impI allI)
  show "\<not> ready d \<Longrightarrow> detect d p c = Inl detector_not_ready"
    by (rule detect_not_ready)
  show "\<not> ocr_ready e \<Longrightarrow> recognize pil e x = Inl engine_not_ready"
    by (rule recognize_not_ready)
  show "\<not> ready (SpeechBubbleDetector_init path)"
    by (simp add: ready_def SpeechBubbleDetector_init_def)
  show "\<not> ocr_ready OCREngine_init"
    by (simp add: ocr_ready_def OCREngine_init_def)
  show "ready (load_model (Inl err) d) \<longleftrightarrow> ready d"
    by (simp add: load_model_def)
  show "ocr_ready (ocr_load (Inl err) e) \<longleftrightarrow> ocr_ready e"
    by (simp add: ocr_load_def)
  show "ready (load_model (Inr m) d)" "model (load_model (Inr m) d) = Some m"
    by (simp_all add: ready_def load_model_def)
  show "ocr_ready (ocr_load (Inr om) e)" "ocr_model (ocr_load (Inr om) e) = Some om"
    by (simp_all add: ocr_ready_def ocr_load_def)
next
  fix ex
  assume "ready d \<and> model d = Some m" "m p = Inl ex"
  then show "detect d p c = Inl ex" by (simp add: detect_ready)
next
  fix boxes
  assume "ready d \<and> model d = Some m" "m p = Inr boxes"
  then show "detect d p c = detections c boxes" by (simp add: detect_ready)
next
  fix boxes
  assume "ready d \<and> model d = Some m" "m p = Inr boxes \<and> list_all readable boxes"
  then show "\<exists>ds. detect d p c = Inr ds"
    using detections_readable [of boxes c] by (simp add: detect_ready)
next
  fix ex
  assume "ocr_ready e \<and> ocr_model e = Some om" "ocr_image pil x = Inl ex"
  then show "recognize pil e x = Inl ex" by (simp add: recognize_ready)
next
  fix im
  assume "ocr_ready e \<and> ocr_model e = Some om" "ocr_image pil x = Inr im"
  then show "recognize pil e x = om im" by (simp add: recognize_ready)
qed

lemma demo_detector_loaded: "ready demo_detector \<and> model demo_detector = Some demo_yolo"
  by (simp add: demo_detector_def load_model_def ready_def SpeechBubbleDetector_init_def)

lemma demo_engine_loaded:
  "ocr_ready demo_engine \<and> ocr_model demo_engine = Some (\<lambda>im. Inr ''text'')"
  by (simp add: demo_engine_def ocr_load_def ocr_ready_def OCREngine_init_def)

theorem ready_guards_calls_witness:
  "detect (SpeechBubbleDetector_init ''model.pt'') ''page.jpg'' (Finite 0) =
     Inl detector_not_ready \<and>
   recognize demo_pil OCREngine_init (InStr ''page.jpg'') = Inl engine_not_ready \<and>
   (\<exists>ds. detect demo_detector ''page.jpg'' (Finite 0) = Inr ds) \<and>
   recognize demo_pil demo_engine (InStr ''page.jpg'') = Inr ''text'' \<and>
   recognize demo_pil demo_engine InOther = Inl ValueError"
proof (intro conjI)
  note t = ready_guards_calls [where d = "SpeechBubbleDetector_init ''model.pt''"
      and e = OCREngine_init and path = "''model.pt''"]
  show "detect (SpeechBubbleDetector_init ''model.pt'') ''page.jpg'' (Finite 0) =
          Inl detector_not_ready"
    using t by blast
  show "recognize demo_pil OCREngine_init (InStr ''page.jpg'') = Inl engine_not_ready"
    using t by blast
next
  have b: "demo_yolo ''page.jpg'' = Inr [demo_box] \<and> list_all readable [demo_box]"
    by (simp add: demo_yolo_def readable_def demo_box_def is_finite_def)
  show "\<exists>ds. detect demo_detector ''page.jpg'' (Finite 0) = Inr ds"
    using ready_guards_calls [where d = demo_detector and m = demo_yolo and p = "''page.jpg''"
        and c = "Finite 0"] demo_detector_loaded b
    by blast
next
  note t = ready_guards_calls [where e = demo_engine and om = "\<lambda>im. Inr ''text''"
      and pil = demo_pil]
  have i: "ocr_image demo_pil (InStr ''page.jpg'') = Inr 0"
    by (simp add: ocr_image_def demo_pil_def)
  show "recognize demo_pil demo_engine (InStr ''page.jpg'') = Inr ''text''"
    using t [where x = "InStr ''page.jpg''"] demo_engine_loaded i by simp
  have o: "ocr_image demo_pil InOther = Inl ValueError"
    by (simp add: ocr_image_def)
  show "recognize demo_pil demo_engine InOther = Inl ValueError"
    using t [where x = InOther] demo_engine_loaded o by simp
qed

text \<open>
  The claim as stated fails in its "only if" half: a detector and an engine that have
  loaded their models are ready, and \<open>detect\<close> and \<open>recognize\<close> still raise a
  \<open>RuntimeError\<close>, the one that the model call raises.
\<close>

theorem ready_raises_counterexample:
  "ready cuda_detector \<and>
   detect cuda_detector ''page.jpg'' (Finite 0) = Inl (RuntimeError ''CUDA error: out of memory'') \<and>
   ocr_ready cuda_engine \<and>
   recognize demo_pil cuda_engine (InStr ''page.jpg'') =
     Inl (RuntimeError ''CUDA error: out of memory'')"
  by (simp add: cuda_detector_def cuda_engine_def cuda_yolo_def load_model_def ocr_load_def
      ready_def ocr_ready_def SpeechBubbleDetector_init_def OCREngine_init_def detect_def
      recognize_def ocr_image_def demo_pil_def)

subsection \<open>Strings, paths and the file system\<close>

lemma str_eq_iff [simp]: "str a = str b \<longleftrightarrow> a = b"
proof -
  have "inj (of_char :: char \<Rightarrow> nat)" by (simp add: inj_def)
  then show ?thesis by (simp add: str_def inj_map_eq_map)
qed

lemma utf8_str_str [simp]: "utf8_str (str s)"
proof -
  have "(of_char c :: nat) < 55296" for c
    using nat_of_char_less_256 [of c] by linarith
  then show ?thesis by (simp add: utf8_str_def str_def list_all_iff)
qed

lemma stem_demo: "stem ''p01.jpg'' = ''p01''"
  by (simp add: stem_def)




subsection \<open>AnnotationController.remove (claim C6)\<close>

lemma find_annotation_raises: "as \<noteq> [] \<Longrightarrow> find_annotation i as b = Inl AttributeError"
  by (cases as) (simp_all add: annotation_id_def)

lemma remove_nonempty:
  "annotations self \<noteq> [] \<Longrightarrow> remove self b = (Some AttributeError, self, [])"
  by (simp add: remove_def find_annotation_raises)

lemma remove_empty: "annotations self = [] \<Longrightarrow> remove self b = (None, self, [])"
  by (simp add: remove_def)

text \<open>
  Claim C6 says that \<open>remove(bubble_id)\<close> deletes the annotation with that id and emits
  \<open>bubble_removed\<close>. On a controller that holds one annotation the call raises
  \<open>AttributeError\<close> at \<open>a.id\<close>, deletes nothing and emits nothing, whatever the id.
\<close>

theorem remove_raises_AttributeError:
  "remove \<lparr>annotations = [demo_annotation], ctl_path = None\<rparr> 0 =
     (Some AttributeError, \<lparr>annotations = [demo_annotation], ctl_path = None\<rparr>, [])"
  by (simp add: remove_nonempty)

subsection \<open>AnnotationController.load (claim C9)\<close>









subsection \<open>Saving and loading again (claim C5)\<close>







































subsection \<open>Lists: first index, deletion and insertion\<close>


lemma index_of_Some:
  "index_of x xs = Some i \<Longrightarrow> i < length xs \<and> xs ! i = x"
  by (induction xs arbitrary: i) (auto split: if_splits)

lemma index_of_nth_distinct:
  "distinct xs \<Longrightarrow> i < length xs \<Longrightarrow> index_of (xs ! i) xs = Some i"
proof (induction xs arbitrary: i)
  case Nil
  then show ?case by simp
next
  case (Cons a xs)
  show ?case
  proof (cases i)
    case 0
    then show ?thesis by simp
  next
    case (Suc j)
    with Cons.prems have "j < length xs" "distinct xs" "a \<noteq> xs ! j" by auto
    with Cons.IH [of j] Suc show ?thesis by simp
  qed
qed

lemma length_del_at: "i < length xs \<Longrightarrow> length (del_at i xs) = length xs - 1"
  by (simp add: del_at_def)

lemma map_del_at: "map f (del_at i xs) = del_at i (map f xs)"
  by (simp add: del_at_def take_map drop_map)

lemma set_del_at: "set (del_at i xs) \<subseteq> set xs"
  by (auto simp: del_at_def dest: in_set_takeD in_set_dropD)

lemma distinct_del_at: "distinct xs \<Longrightarrow> distinct (del_at i xs)"
proof -
  assume d: "distinct xs"
  have "set (take i xs) \<inter> set (drop (Suc i) xs) = {}"
    using d by (simp add: set_take_disj_set_drop_if_distinct)
  then show ?thesis using d by (simp add: del_at_def)
qed

lemma nth_notin_del_at:
  assumes "distinct xs" "i < length xs"
  shows "xs ! i \<notin> set (del_at i xs)"
proof -
  have xs: "xs = take i xs @ xs ! i # drop (Suc i) xs"
    using assms(2) by (rule id_take_nth_drop)
  have "distinct (take i xs @ xs ! i # drop (Suc i) xs)"
    using assms(1) xs by simp
  then show ?thesis by (auto simp: del_at_def)
qed

lemma map_py_insert: "map f (py_insert i x xs) = py_insert i (f x) (map f xs)"
  by (simp add: py_insert_def take_map drop_map)

lemma set_py_insert: "set (py_insert i x xs) = insert x (set xs)"
proof -
  have "set (take i xs) \<union> set (drop i xs) = set xs"
    by (metis append_take_drop_id set_append)
  then show ?thesis by (auto simp: py_insert_def)
qed

lemma distinct_py_insert:
  assumes "distinct xs" "x \<notin> set xs"
  shows "distinct (py_insert i x xs)"
proof -
  have "set (take i xs) \<inter> set (drop i xs) = {}"
    using assms(1) by (simp add: set_take_disj_set_drop_if_distinct)
  moreover have "x \<notin> set (take i xs)" "x \<notin> set (drop i xs)"
    using assms(2) by (auto dest: in_set_takeD in_set_dropD)
  ultimately show ?thesis using assms(1) by (simp add: py_insert_def)
qed

lemma py_insert_del_at:
  assumes "i < length xs"
  shows "py_insert i (xs ! i) (del_at i xs) = xs"
proof -
  have t: "take i (take i xs @ drop (Suc i) xs) = take i xs"
    using assms by simp
  have d: "drop i (take i xs @ drop (Suc i) xs) = drop (Suc i) xs"
    using assms by simp
  show ?thesis
    unfolding py_insert_def del_at_def t d
    using assms by (simp add: id_take_nth_drop [symmetric])
qed

lemma nth_py_insert: "i \<le> length xs \<Longrightarrow> py_insert i x xs ! i = x"
  by (simp add: py_insert_def nth_append)

subsection \<open>The registry operations keep the registry well formed\<close>

lemma registry_okD:
  assumes "registry_ok w"
  shows "bubble_list w = map fst (rect_list w)"
    and "distinct (bubble_list w)"
    and "set (bubble_list w) \<inter> destroyed w = {}"
    and "\<And>li. li \<in> set (bubble_list w) \<Longrightarrow> li < length (list_items w)"
    and "\<And>li. li \<in> destroyed w \<Longrightarrow> li < length (list_items w)"
    and "\<And>p. p \<in> set (rect_list w) \<Longrightarrow> li_data (list_items w ! fst p) = snd p"
  using assms unfolding registry_ok_def by blast+

lemma registry_okI:
  assumes "bubble_list w = map fst (rect_list w)"
    and "distinct (bubble_list w)"
    and "set (bubble_list w) \<inter> destroyed w = {}"
    and "\<And>li. li \<in> set (bubble_list w) \<Longrightarrow> li < length (list_items w)"
    and "\<And>li. li \<in> destroyed w \<Longrightarrow> li < length (list_items w)"
    and "\<And>p. p \<in> set (rect_list w) \<Longrightarrow> li_data (list_items w ! fst p) = snd p"
  shows "registry_ok w"
  unfolding registry_ok_def using assms by blast

lemma registry_ok_pairs:
  assumes "registry_ok w" "p \<in> set (rect_list w)"
  shows "fst p \<in> set (bubble_list w)"
  using assms(2) unfolding registry_okD(1) [OF assms(1)] by simp

lemma command_ok_fields:
  assumes "list_items w' = list_items w"
  shows "command_ok w' c = command_ok w c"
  using assms by (simp add: command_ok_def split: option.splits)

lemma registry_ok_consistent: "registry_ok w \<Longrightarrow> consistent w"
  by (simp add: registry_ok_def consistent_def)

lemma registry_ok_init: "registry_ok (MainWindow_init objs)"
  by (simp add: registry_ok_def MainWindow_init_def)

lemma add_bubble_noop:
  assumes "rect_objs w r = None \<or> r \<in> snd ` set (rect_list w)"
  shows "add_bubble w r = (None, w)"
  using assms by (auto simp: add_bubble_def split: option.splits)

lemma add_bubble_new:
  assumes "registry_ok w" "rect_objs w r = Some obj" "r \<notin> snd ` set (rect_list w)"
  shows "add_bubble w r =
           (Some (length (list_items w)),
            w\<lparr>list_items := list_items w @
                               [\<lparr>li_text = bubble_text w (item_kind obj),
                                 li_checked = item_done obj, li_data = r\<rparr>],
               rect_list := rect_list w @ [(length (list_items w), r)],
               bubble_list := bubble_list w @ [length (list_items w)]\<rparr>)"
proof -
  have "length (list_items w) \<notin> set (bubble_list w)"
    using registry_okD(4) [OF assms(1), of "length (list_items w)"] by blast
  then have "insertItem (length (bubble_list w)) (length (list_items w)) (bubble_list w) =
             bubble_list w @ [length (list_items w)]"
    by (simp add: insertItem_def py_insert_def)
  then show ?thesis
    using assms(2,3) by (simp add: add_bubble_def Let_def)
qed

lemma add_bubble_list_items:
  "\<exists>ys. list_items (snd (add_bubble w r)) = list_items w @ ys"
  by (auto simp: add_bubble_def Let_def split: option.splits)

lemma add_bubble_ok:
  assumes "registry_ok w"
  shows "registry_ok (snd (add_bubble w r))"
proof (cases "rect_objs w r = None \<or> r \<in> snd ` set (rect_list w)")
  case True
  then show ?thesis using assms by (simp add: add_bubble_noop)
next
  case False
  then obtain obj where ob: "rect_objs w r = Some obj" and nin: "r \<notin> snd ` set (rect_list w)"
    by auto
  define lbl where "lbl = bubble_text w (item_kind obj)"
  from add_bubble_new [OF assms ob nin] have
    a: "add_bubble w r =
           (Some (length (list_items w)),
            w\<lparr>list_items := list_items w @
                               [\<lparr>li_text = lbl, li_checked = item_done obj, li_data = r\<rparr>],
               rect_list := rect_list w @ [(length (list_items w), r)],
               bubble_list := bubble_list w @ [length (list_items w)]\<rparr>)"
    by (simp add: lbl_def)
  note d = registry_okD [OF assms]
  let ?n = "length (list_items w)"
  let ?it = "\<lparr>li_text = lbl, li_checked = item_done obj, li_data = r\<rparr>"
  let ?w = "w\<lparr>list_items := list_items w @ [?it],
               rect_list := rect_list w @ [(?n, r)],
               bubble_list := bubble_list w @ [?n]\<rparr>"
  have fresh: "?n \<notin> set (bubble_list w)" "?n \<notin> destroyed w"
    using d(4) [of ?n] d(5) [of ?n] by blast+
  have "registry_ok ?w"
  proof (rule registry_okI)
    show "bubble_list ?w = map fst (rect_list ?w)" using d(1) by simp
    show "distinct (bubble_list ?w)" using d(2) fresh by simp
    show "set (bubble_list ?w) \<inter> destroyed ?w = {}" using d(3) fresh by simp
    show "li < length (list_items ?w)" if "li \<in> set (bubble_list ?w)" for li
      using that d(4) [of li] by auto
    show "li < length (list_items ?w)" if "li \<in> destroyed ?w" for li
      using that d(5) [of li] by auto
    show "li_data (list_items ?w ! fst p) = snd p" if "p \<in> set (rect_list ?w)" for p
    proof (cases "p = (?n, r)")
      case True
      then show ?thesis by simp
    next
      case False
      with that have p: "p \<in> set (rect_list w)" by simp
      then have "fst p < ?n" using registry_ok_pairs [OF assms p] d(4) by blast
      then show ?thesis using d(6) [OF p] by (simp add: nth_append)
    qed
  qed
  then show ?thesis by (simp add: a)
qed

lemma command_ok_append:
  assumes "command_ok w c" "list_items w' = list_items w @ ys"
  shows "command_ok w' c"
  using assms by (auto simp: command_ok_def nth_append split: option.splits)

lemma add_bubble_command_ok:
  assumes "command_ok w c"
  shows "command_ok (snd (add_bubble w r)) c"
  using add_bubble_list_items [of w r] command_ok_append [OF assms] by blast

lemma py_index_inside:
  assumes "\<not> (idx < - int n \<or> int n \<le> idx)"
  shows "\<exists>j<n. idx = int j \<or> idx = int j - int n"
proof (cases "idx < 0")
  case True
  with assms have "nat (idx + int n) < n" "idx = int (nat (idx + int n)) - int n" by linarith+
  then show ?thesis by blast
next
  case False
  with assms have "nat idx < n" "idx = int (nat idx)" by linarith+
  then show ?thesis by blast
qed

lemma remove_bubble_outside:
  assumes "idx < - int (length (rect_list w)) \<or> int (length (rect_list w)) \<le> idx"
  shows "remove_bubble w idx = (Some IndexError, w)"
proof (cases "idx < 0")
  case True
  with assms have "idx + int (length (rect_list w)) < 0" by linarith
  with True show ?thesis by (simp add: remove_bubble_def Let_def)
next
  case False
  with assms have "int (length (rect_list w)) \<le> idx" by linarith
  with False show ?thesis by (simp add: remove_bubble_def Let_def)
qed

lemma remove_bubble_at:
  assumes "registry_ok w" "j < length (rect_list w)"
    and "idx = int j \<or> idx = int j - int (length (rect_list w))"
  shows "remove_bubble w idx =
           (None, w\<lparr>rect_list := del_at j (rect_list w),
                    scene := scene w - {snd (rect_list w ! j)},
                    bubble_list := del_at j (bubble_list w)\<rparr>)"
proof -
  note d = registry_okD [OF assms(1)]
  have jb: "j < length (bubble_list w)" using assms(2) d(1) by simp
  have li: "fst (rect_list w ! j) = bubble_list w ! j" using assms(2) d(1) by simp
  have alive: "bubble_list w ! j \<notin> destroyed w"
    using d(3) nth_mem [OF jb] by blast
  have tk: "take_item (bubble_list w ! j) (bubble_list w) = del_at j (bubble_list w)"
    using index_of_nth_distinct [OF d(2) jb] by (simp add: take_item_def)
  have norm: "(if idx < 0 then idx + int (length (rect_list w)) else idx) = int j"
  proof (cases "idx = int j")
    case True
    then show ?thesis by simp
  next
    case False
    with assms(3) have e: "idx = int j - int (length (rect_list w))" by simp
    then have "idx < 0" using assms(2) by simp
    then show ?thesis using e by simp
  qed
  obtain a b where ab: "rect_list w ! j = (a, b)" by (cases "rect_list w ! j")
  with li have a: "a = bubble_list w ! j" by simp
  have inside: "\<not> (int j < 0 \<or> int (length (rect_list w)) \<le> int j)"
    using assms(2) by simp
  show ?thesis
    unfolding remove_bubble_def Let_def norm
    by (simp only: inside if_False nat_int ab prod.case a) (simp add: alive tk)
qed

lemma del_at_registry_ok:
  assumes "registry_ok w"
    and "rect_list w' = del_at j (rect_list w)" "bubble_list w' = del_at j (bubble_list w)"
    and "destroyed w' = destroyed w" "list_items w' = list_items w"
  shows "registry_ok w'"
proof (rule registry_okI)
  note d = registry_okD [OF assms(1)]
  have sub: "set (rect_list w') \<subseteq> set (rect_list w)" "set (bubble_list w') \<subseteq> set (bubble_list w)"
    unfolding assms(2,3) by (rule set_del_at)+
  show "bubble_list w' = map fst (rect_list w')"
    by (simp add: assms(2,3) d(1) map_del_at)
  show "distinct (bubble_list w')"
    using d(2) by (simp add: assms(3) distinct_del_at)
  show "set (bubble_list w') \<inter> destroyed w' = {}"
    using d(3) sub(2) assms(4) by blast
  show "li < length (list_items w')" if "li \<in> set (bubble_list w')" for li
    using that sub(2) d(4) assms(5) by auto
  show "li < length (list_items w')" if "li \<in> destroyed w'" for li
    using that d(5) assms(4,5) by auto
  show "li_data (list_items w' ! fst p) = snd p" if "p \<in> set (rect_list w')" for p
    using that sub(1) d(6) [of p] assms(5) by auto
qed

lemma remove_bubble_ok:
  assumes "registry_ok w"
  shows "registry_ok (snd (remove_bubble w idx))"
proof (cases "idx < - int (length (rect_list w)) \<or> int (length (rect_list w)) \<le> idx")
  case True
  then show ?thesis using assms by (simp add: remove_bubble_outside)
next
  case False
  from py_index_inside [OF False] obtain j where
    j: "j < length (rect_list w)" and i: "idx = int j \<or> idx = int j - int (length (rect_list w))"
    by blast
  show ?thesis
    unfolding remove_bubble_at [OF assms j i]
    by (rule del_at_registry_ok [OF assms, of _ j]) simp_all
qed

lemma remove_bubble_list_items: "list_items (snd (remove_bubble w idx)) = list_items w"
  by (simp add: remove_bubble_def Let_def split: prod.splits)

lemma remove_bubble_for_ok:
  assumes "registry_ok w"
  shows "registry_ok (snd (remove_bubble_for w r))"
  using assms by (simp add: remove_bubble_for_def remove_bubble_ok split: option.splits)

lemma remove_bubble_for_list_items: "list_items (snd (remove_bubble_for w r)) = list_items w"
  by (simp add: remove_bubble_for_def remove_bubble_list_items split: option.splits)

lemma clear_bubbles_ok:
  assumes "registry_ok w"
  shows "registry_ok (clear_bubbles w)"
proof (rule registry_okI)
  note d = registry_okD [OF assms]
  show "li < length (list_items (clear_bubbles w))" if "li \<in> destroyed (clear_bubbles w)" for li
    using that d(4) [of li] d(5) [of li] by (auto simp: clear_bubbles_def Let_def)
qed (simp_all add: clear_bubbles_def Let_def)

lemma clear_bubbles_list_items: "list_items (clear_bubbles w) = list_items w"
  by (simp add: clear_bubbles_def Let_def)

lemma add_graphics_item_fields:
  "rect_list (add_graphics_item w i) = rect_list w"
  "bubble_list (add_graphics_item w i) = bubble_list w"
  "destroyed (add_graphics_item w i) = destroyed w"
  "list_items (add_graphics_item w i) = list_items w"
  "scene (add_graphics_item w i) = insert i (scene w)"
  by (simp_all add: add_graphics_item_def Let_def)

lemma mark_dirty_fields:
  "rect_list (mark_dirty w) = rect_list w"
  "bubble_list (mark_dirty w) = bubble_list w"
  "destroyed (mark_dirty w) = destroyed w"
  "list_items (mark_dirty w) = list_items w"
  "scene (mark_dirty w) = scene w"
  by (simp_all add: mark_dirty_def)

lemma undo_unset:
  assumes "rb_row c = None \<or> rb_listitem c = None"
  shows "RemoveBubbleCommand_undo c w = (Some AttributeError, c, w)"
  using assms by (auto simp: RemoveBubbleCommand_undo_def split: option.splits)

lemma undo_fields:
  assumes "rb_row c = Some row" "rb_listitem c = Some li"
    and "li \<notin> set (bubble_list w)" "li \<notin> destroyed w"
  shows "\<exists>w'. RemoveBubbleCommand_undo c w = (None, c, w') \<and>
              rect_list w' = py_insert row (li, rb_rect_item c) (rect_list w) \<and>
              bubble_list w' = py_insert row li (bubble_list w) \<and>
              destroyed w' = destroyed w \<and> list_items w' = list_items w \<and>
              scene w' = insert (rb_rect_item c) (scene w)"
  using assms
  by (simp add: RemoveBubbleCommand_undo_def Let_def insertItem_def
      add_graphics_item_fields mark_dirty_fields)

lemma undo_list_items:
  "list_items (snd (snd (RemoveBubbleCommand_undo c w))) = list_items w"
  by (auto simp: RemoveBubbleCommand_undo_def Let_def add_graphics_item_fields mark_dirty_fields
      split: option.splits)

lemma undo_ok:
  assumes "registry_ok w" "command_ok w c" "undo_allowed w c"
  shows "registry_ok (snd (snd (RemoveBubbleCommand_undo c w)))"
proof (cases "rb_row c = None \<or> rb_listitem c = None")
  case True
  then show ?thesis using assms(1) by (simp add: undo_unset)
next
  case False
  then obtain row li where r: "rb_row c = Some row" and l: "rb_listitem c = Some li" by auto
  have out: "li \<notin> set (bubble_list w)" "li \<notin> destroyed w"
    using assms(3) l by (simp_all add: undo_allowed_def)
  have co: "li < length (list_items w)" "li_data (list_items w ! li) = rb_rect_item c"
    using assms(2) l by (simp_all add: command_ok_def)
  from undo_fields [OF r l out] obtain w' where
    u: "RemoveBubbleCommand_undo c w = (None, c, w')"
    and f: "rect_list w' = py_insert row (li, rb_rect_item c) (rect_list w)"
      "bubble_list w' = py_insert row li (bubble_list w)"
      "destroyed w' = destroyed w" "list_items w' = list_items w"
    by blast
  note d = registry_okD [OF assms(1)]
  have "registry_ok w'"
  proof (rule registry_okI)
    show "bubble_list w' = map fst (rect_list w')"
      by (simp add: f d(1) map_py_insert)
    show "distinct (bubble_list w')"
      using d(2) out(1) by (simp add: f distinct_py_insert)
    show "set (bubble_list w') \<inter> destroyed w' = {}"
      using d(3) out(2) by (simp add: f set_py_insert)
    show "x < length (list_items w')" if "x \<in> set (bubble_list w')" for x
      using that d(4) [of x] co(1) by (auto simp: f set_py_insert)
    show "x < length (list_items w')" if "x \<in> destroyed w'" for x
      using that d(5) [of x] by (simp add: f)
    show "li_data (list_items w' ! fst p) = snd p" if "p \<in> set (rect_list w')" for p
      using that d(6) [of p] co(2) by (auto simp: f set_py_insert)
  qed
  then show ?thesis by (simp add: u)
qed

lemma redo_window:
  "snd (snd (RemoveBubbleCommand_redo c w)) = snd (remove_bubble_for w (rb_rect_item c))"
  by (simp add: RemoveBubbleCommand_redo_def split: prod.splits)

lemma scan_rows_Some:
  "scan_rows objs r k lis = Some (row, li) \<Longrightarrow> li < length objs \<and> li_data (objs ! li) = r"
  by (induction lis arbitrary: k) (auto split: if_splits)

lemma init_command_ok: "command_ok w (RemoveBubbleCommand_init w r)"
  by (auto simp: command_ok_def RemoveBubbleCommand_init_def
      split: option.splits dest: scan_rows_Some)

lemma step_ok:
  assumes "session_ok s" "call_allowed s call"
  shows "session_ok (step call s)"
proof (cases call)
  case (Add_bubble r)
  then show ?thesis
    using assms(1)
    by (auto simp: session_ok_def step_def add_bubble_ok list_all_iff add_bubble_command_ok)
next
  case (Remove_bubble idx)
  then show ?thesis
    using assms(1) command_ok_fields [OF remove_bubble_list_items]
    by (simp add: session_ok_def step_def remove_bubble_ok list_all_iff)
next
  case (Remove_bubble_for r)
  then show ?thesis
    using assms(1) command_ok_fields [OF remove_bubble_for_list_items]
    by (simp add: session_ok_def step_def remove_bubble_for_ok list_all_iff)
next
  case Clear_bubbles
  then show ?thesis
    using assms(1) command_ok_fields [OF clear_bubbles_list_items]
    by (simp add: session_ok_def step_def clear_bubbles_ok list_all_iff)
next
  case (New_remove_command r)
  then show ?thesis
    using assms(1) by (simp add: session_ok_def step_def init_command_ok)
next
  case (Redo_remove k)
  then show ?thesis
    using assms(1) command_ok_fields [OF remove_bubble_for_list_items]
    by (simp add: session_ok_def step_def redo_window remove_bubble_for_ok list_all_iff)
next
  case (Undo_remove k)
  show ?thesis
  proof (cases "k < length (commands s)")
    case False
    with Undo_remove assms(1) show ?thesis by (simp add: step_def)
  next
    case True
    have c: "command_ok (window s) (commands s ! k)"
      using assms(1) True by (simp add: session_ok_def list_all_length)
    have a: "undo_allowed (window s) (commands s ! k)"
      using assms(2) True Undo_remove by (simp add: call_allowed_def)
    have "registry_ok (snd (snd (RemoveBubbleCommand_undo (commands s ! k) (window s))))"
      using undo_ok [OF _ c a] assms(1) by (simp add: session_ok_def)
    then show ?thesis
      using assms(1) True Undo_remove command_ok_fields [OF undo_list_items]
      by (simp add: session_ok_def step_def list_all_iff)
  qed
qed

lemma run_ok:
  "session_ok s \<Longrightarrow> admissible s calls \<Longrightarrow> session_ok (run s calls)"
  by (induction calls arbitrary: s) (simp_all add: step_ok)

lemma session_init_ok: "session_ok (session_init objs)"
  by (simp add: session_ok_def session_init_def registry_ok_init)

subsection \<open>Registry consistency (claim C1)\<close>

text \<open>
  Claim C1, amended. Start from the empty registry and make any sequence of calls to
  \<open>_add_bubble\<close>, \<open>_remove_bubble\<close>, \<open>_remove_bubble_for\<close>, \<open>clear_bubbles\<close>, and the
  construction, \<open>redo\<close> and \<open>undo\<close> of \<open>RemoveBubbleCommand\<close>s, in which every \<open>undo\<close> runs
  while the command's list item is neither in \<open>bubble_list\<close> nor destroyed by an earlier
  \<open>clear_bubbles\<close>. Then \<open>_rect_list\<close> and \<open>bubble_list\<close> have the same length and the item
  of every row is the list item of the pair at that index.
\<close>

theorem registry_consistent:
  assumes "admissible (session_init objs) calls"
  shows "consistent (window (run (session_init objs) calls))"
  using run_ok [OF session_init_ok assms]
  by (simp add: session_ok_def registry_ok_consistent)

lemma paired_admissible: "admissible (session_init demo_objs) paired_calls"
  unfolding paired_calls_def by code_simp

lemma paired_result:
  "rect_list (window (run (session_init demo_objs) paired_calls)) = [(0, 0), (2, 2)] \<and>
   bubble_list (window (run (session_init demo_objs) paired_calls)) = [0, 2]"
  unfolding paired_calls_def by code_simp

theorem registry_consistent_witness:
  "admissible (session_init demo_objs) paired_calls \<and>
   consistent (window (run (session_init demo_objs) paired_calls)) \<and>
   rect_list (window (run (session_init demo_objs) paired_calls)) = [(0, 0), (2, 2)] \<and>
   bubble_list (window (run (session_init demo_objs) paired_calls)) = [0, 2]"
  using registry_consistent [OF paired_admissible] paired_admissible paired_result by simp

text \<open>
  The claim as stated fails. With one rectangle registered, \<open>undo\<close> of a
  \<open>RemoveBubbleCommand\<close> that was never redone inserts a second pair into \<open>_rect_list\<close>,
  while the list widget ignores the item it already holds: two pairs, one row. The
  second sequence ends with three pairs and two rows. In the third sequence the item is
  back in the list widget when \<open>clear_bubbles\<close> runs, which destroys it; \<open>redo\<close> then finds
  no pair to remove, and the \<open>undo\<close> after it inserts its pair into \<open>_rect_list\<close> and
  raises at \<open>insertItem\<close>: one pair, no row. The first two sequences call \<open>undo\<close> while
  the item is in the list widget and nothing is destroyed; the third calls it on a
  destroyed item that is not in the list widget.
\<close>

lemma unpaired_result:
  "rect_list (window (run (session_init demo_objs) unpaired_calls)) = [(0, 0), (0, 0)] \<and>
   bubble_list (window (run (session_init demo_objs) unpaired_calls)) = [0]"
  unfolding unpaired_calls_def by code_simp

lemma interleaved_result:
  "rect_list (window (run (session_init demo_objs) interleaved_calls)) = [(2, 0), (3, 1), (4, 2)] \<and>
   bubble_list (window (run (session_init demo_objs) interleaved_calls)) = [3, 4]"
  unfolding interleaved_calls_def by code_simp

lemma stack_result:
  "rect_list (window (run (session_init demo_objs) stack_calls)) = [(0, 0)] \<and>
   bubble_list (window (run (session_init demo_objs) stack_calls)) = []"
  unfolding stack_calls_def by code_simp

lemma stack_before_undo:
  "bubble_list (window (run (session_init demo_objs) (butlast stack_calls))) = [] \<and>
   0 \<in> destroyed (window (run (session_init demo_objs) (butlast stack_calls))) \<and>
   rb_listitem (commands (run (session_init demo_objs) (butlast stack_calls)) ! 0) = Some 0"
  unfolding stack_calls_def by code_simp

theorem registry_inconsistent_counterexample:
  "\<not> consistent (window (run (session_init demo_objs) unpaired_calls)) \<and>
   \<not> consistent (window (run (session_init demo_objs) interleaved_calls)) \<and>
   \<not> consistent (window (run (session_init demo_objs) stack_calls)) \<and>
   bubble_list (window (run (session_init demo_objs) (butlast stack_calls))) = [] \<and>
   0 \<in> destroyed (window (run (session_init demo_objs) (butlast stack_calls))) \<and>
   rb_listitem (commands (run (session_init demo_objs) (butlast stack_calls)) ! 0) = Some 0"
  using unpaired_result interleaved_result stack_result stack_before_undo
  by (simp add: consistent_def)

subsection \<open>RemoveBubbleCommand restores the row (claim C3)\<close>

lemma scan_rows_pairs:
  assumes "\<And>p. p \<in> set ps \<Longrightarrow> fst p < length objs \<and> li_data (objs ! fst p) = snd p"
  shows "scan_rows objs r k (map fst ps) =
           map_option (\<lambda>i. (k + i, fst (ps ! i))) (index_of r (map snd ps))"
  using assms
proof (induction ps arbitrary: k)
  case Nil
  then show ?case by simp
next
  case (Cons p ps)
  have p: "fst p < length objs" "li_data (objs ! fst p) = snd p"
    using Cons.prems [of p] by simp_all
  have IH: "scan_rows objs r (Suc k) (map fst ps) =
              map_option (\<lambda>i. (Suc k + i, fst (ps ! i))) (index_of r (map snd ps))"
    using Cons.IH [of "Suc k"] Cons.prems by simp
  show ?case
  proof (cases "snd p = r")
    case True
    then show ?thesis using p by simp
  next
    case False
    then show ?thesis using p IH
      by (cases "index_of r (map snd ps)") simp_all
  qed
qed

lemma init_row:
  assumes "registry_ok w" "rb_row (RemoveBubbleCommand_init w r) = Some row"
  shows "index_of r (map snd (rect_list w)) = Some row"
    and "rb_listitem (RemoveBubbleCommand_init w r) = Some (bubble_list w ! row)"
    and "rb_rect_item (RemoveBubbleCommand_init w r) = r"
proof -
  note d = registry_okD [OF assms(1)]
  have pr: "fst p < length (list_items w) \<and> li_data (list_items w ! fst p) = snd p"
    if "p \<in> set (rect_list w)" for p
    using d(4) [OF registry_ok_pairs [OF assms(1) that]] d(6) [OF that] by simp
  have sc: "scan_rows (list_items w) r 0 (bubble_list w) =
              map_option (\<lambda>i. (0 + i, fst (rect_list w ! i))) (index_of r (map snd (rect_list w)))"
    unfolding d(1) by (rule scan_rows_pairs) (rule pr)
  show i: "index_of r (map snd (rect_list w)) = Some row"
    using assms(2) sc
    by (cases "index_of r (map snd (rect_list w))") (simp_all add: RemoveBubbleCommand_init_def)
  have "row < length (rect_list w)" using index_of_Some [OF i] by simp
  then show "rb_listitem (RemoveBubbleCommand_init w r) = Some (bubble_list w ! row)"
    using sc i by (simp add: RemoveBubbleCommand_init_def d(1))
  show "rb_rect_item (RemoveBubbleCommand_init w r) = r"
    by (simp add: RemoveBubbleCommand_init_def split: option.splits)
qed

lemma redo_undo_restores:
  assumes ok: "registry_ok w" and row: "rb_row (RemoveBubbleCommand_init w r) = Some row"
  defines "c \<equiv> RemoveBubbleCommand_init w r"
  defines "li \<equiv> bubble_list w ! row"
  defines "w1 \<equiv> snd (snd (RemoveBubbleCommand_redo c w))"
  defines "w2 \<equiv> snd (snd (RemoveBubbleCommand_undo c w1))"
  shows "row < length (bubble_list w)" and "rect_list w ! row = (li, r)"
    and "rb_listitem c = Some li"
    and "RemoveBubbleCommand_redo c w = (None, c, w1)"
    and "rect_list w1 = del_at row (rect_list w)" and "bubble_list w1 = del_at row (bubble_list w)"
    and "(li, r) \<notin> set (rect_list w1)" and "li \<notin> set (bubble_list w1)" and "r \<notin> scene w1"
    and "RemoveBubbleCommand_undo c w1 = (None, c, w2)"
    and "rect_list w2 = rect_list w" and "bubble_list w2 = bubble_list w" and "r \<in> scene w2"
proof -
  note d = registry_okD [OF ok]
  note i = init_row [OF ok row]
  have rl: "row < length (rect_list w)"
    using index_of_Some [OF i(1)] by simp
  have sr: "snd (rect_list w ! row) = r"
    using index_of_Some [OF i(1)] rl by (simp add: nth_map)
  show rb: "row < length (bubble_list w)" using rl d(1) by simp
  have fr: "fst (rect_list w ! row) = li" using rl d(1) by (simp add: li_def)
  show pair: "rect_list w ! row = (li, r)" using fr sr by (metis prod.collapse)
  show cl: "rb_listitem c = Some li" using i(2) by (simp add: c_def li_def)
  have cr: "rb_rect_item c = r" using i(3) by (simp add: c_def)
  have crow: "rb_row c = Some row" using row by (simp add: c_def)
  have rm: "remove_bubble_for w r =
              (None, w\<lparr>rect_list := del_at row (rect_list w),
                       scene := scene w - {snd (rect_list w ! row)},
                       bubble_list := del_at row (bubble_list w)\<rparr>)"
    using remove_bubble_at [OF ok rl, of "int row"] i(1) by (simp add: remove_bubble_for_def)
  have w1: "w1 = w\<lparr>rect_list := del_at row (rect_list w),
                     scene := scene w - {snd (rect_list w ! row)},
                     bubble_list := del_at row (bubble_list w)\<rparr>"
    by (simp add: w1_def RemoveBubbleCommand_redo_def cr rm)
  show "RemoveBubbleCommand_redo c w = (None, c, w1)"
    by (simp add: RemoveBubbleCommand_redo_def cr rm w1)
  show r1: "rect_list w1 = del_at row (rect_list w)" by (simp add: w1)
  show b1: "bubble_list w1 = del_at row (bubble_list w)" by (simp add: w1)
  show out: "li \<notin> set (bubble_list w1)"
    unfolding b1 li_def by (rule nth_notin_del_at [OF d(2) rb])
  have "fst ` set (rect_list w1) = set (bubble_list w1)"
    by (simp add: r1 b1 d(1) map_del_at [symmetric])
  then show "(li, r) \<notin> set (rect_list w1)"
    using out by (metis fst_conv image_eqI)
  show "r \<notin> scene w1" by (simp add: w1 sr)
  have alive: "li \<notin> destroyed w1"
    using d(3) nth_mem [OF rb] by (auto simp: w1 li_def)
  from undo_fields [OF crow cl out alive] obtain w' where
    u: "RemoveBubbleCommand_undo c w1 = (None, c, w')"
    and f: "rect_list w' = py_insert row (li, rb_rect_item c) (rect_list w1)"
      "bubble_list w' = py_insert row li (bubble_list w1)"
      "scene w' = insert (rb_rect_item c) (scene w1)"
    by blast
  have w2: "w2 = w'" by (simp add: w2_def u)
  show "RemoveBubbleCommand_undo c w1 = (None, c, w2)" by (simp add: u w2)
  show "rect_list w2 = rect_list w"
    using py_insert_del_at [OF rl] by (simp add: w2 f r1 cr pair)
  show "bubble_list w2 = bubble_list w"
    using py_insert_del_at [OF rb] by (simp add: w2 f b1 li_def)
  show "r \<in> scene w2" by (simp add: w2 f cr)
qed

text \<open>
  Claim C3. Let a \<open>RemoveBubbleCommand\<close> be created for a rectangle in a well-formed
  registry, and let its constructor find the rectangle's list item at row \<open>row\<close>. Then
  \<open>redo\<close> removes the pair from \<open>_rect_list\<close>, the item from \<open>bubble_list\<close> and the
  rectangle from the scene, and \<open>undo\<close> after it puts the same list item and the same
  rectangle back at row \<open>row\<close> of both lists, which are then as they were, and the
  rectangle back into the scene.
\<close>

theorem remove_command_restores_row:
  assumes "registry_ok w" and "rb_row (RemoveBubbleCommand_init w r) = Some row"
  shows "\<exists>li w1 w2.
           rb_listitem (RemoveBubbleCommand_init w r) = Some li \<and>
           row < length (bubble_list w) \<and> bubble_list w ! row = li \<and>
           rect_list w ! row = (li, r) \<and>
           RemoveBubbleCommand_redo (RemoveBubbleCommand_init w r) w =
             (None, RemoveBubbleCommand_init w r, w1) \<and>
           rect_list w1 = del_at row (rect_list w) \<and>
           bubble_list w1 = del_at row (bubble_list w) \<and>
           (li, r) \<notin> set (rect_list w1) \<and> li \<notin> set (bubble_list w1) \<and> r \<notin> scene w1 \<and>
           RemoveBubbleCommand_undo (RemoveBubbleCommand_init w r) w1 =
             (None, RemoveBubbleCommand_init w r, w2) \<and>
           rect_list w2 ! row = (li, r) \<and> bubble_list w2 ! row = li \<and> r \<in> scene w2 \<and>
           rect_list w2 = rect_list w \<and> bubble_list w2 = bubble_list w"
proof -
  note t = redo_undo_restores [OF assms]
  show ?thesis
    apply (rule exI [of _ "bubble_list w ! row"])
    apply (rule exI [of _ "snd (snd (RemoveBubbleCommand_redo (RemoveBubbleCommand_init w r) w))"])
    apply (rule exI [of _ "snd (snd (RemoveBubbleCommand_undo (RemoveBubbleCommand_init w r)
              (snd (snd (RemoveBubbleCommand_redo (RemoveBubbleCommand_init w r) w)))))"])
    using t by simp
qed

lemma demo_window_ok: "registry_ok demo_window"
proof -
  have "admissible (session_init demo_objs) [Add_bubble 0, Add_bubble 1, Add_bubble 2]"
    by (simp add: call_allowed_def)
  from run_ok [OF session_init_ok this] show ?thesis
    by (simp add: session_ok_def demo_window_def)
qed

lemma demo_window_row: "rb_row (RemoveBubbleCommand_init demo_window 1) = Some 1"
  unfolding demo_window_def by code_simp

lemma demo_window_lists:
  "rect_list demo_window = [(0, 0), (1, 1), (2, 2)]" "bubble_list demo_window = [0, 1, 2]"
  unfolding demo_window_def by code_simp+

theorem remove_command_restores_row_witness:
  "registry_ok demo_window \<and> rb_row (RemoveBubbleCommand_init demo_window 1) = Some 1 \<and>
   (\<exists>w1 w2.
      RemoveBubbleCommand_redo (RemoveBubbleCommand_init demo_window 1) demo_window =
        (None, RemoveBubbleCommand_init demo_window 1, w1) \<and>
      rect_list w1 = [(0, 0), (2, 2)] \<and> bubble_list w1 = [0, 2] \<and> 1 \<notin> scene w1 \<and>
      RemoveBubbleCommand_undo (RemoveBubbleCommand_init demo_window 1) w1 =
        (None, RemoveBubbleCommand_init demo_window 1, w2) \<and>
      rect_list w2 = [(0, 0), (1, 1), (2, 2)] \<and> bubble_list w2 = [0, 1, 2] \<and> 1 \<in> scene w2)"
proof -
  from remove_command_restores_row [OF demo_window_ok demo_window_row]
  obtain li w1 w2 where
    t: "RemoveBubbleCommand_redo (RemoveBubbleCommand_init demo_window 1) demo_window =
          (None, RemoveBubbleCommand_init demo_window 1, w1)"
      "rect_list w1 = del_at 1 (rect_list demo_window)"
      "bubble_list w1 = del_at 1 (bubble_list demo_window)"
      "1 \<notin> scene w1"
      "RemoveBubbleCommand_undo (RemoveBubbleCommand_init demo_window 1) w1 =
          (None, RemoveBubbleCommand_init demo_window 1, w2)"
      "1 \<in> scene w2" "rect_list w2 = rect_list demo_window"
      "bubble_list w2 = bubble_list demo_window"
    by blast
  have "rect_list w1 = [(0, 0), (2, 2)]" "bubble_list w1 = [0, 2]"
    by (simp_all add: t demo_window_lists del_at_def)
  with t demo_window_ok demo_window_row show ?thesis
    by (auto simp: demo_window_lists)
qed

subsection \<open>Commands and their fields (claim C2)\<close>

lemma run_remove_fields: "fst (run_remove c w calls) = c"
proof (induction calls arbitrary: w)
  case Nil
  then show ?case by simp
next
  case (Cons call calls)
  have r: "fst (snd (RemoveBubbleCommand_redo c w)) = c"
    by (simp add: RemoveBubbleCommand_redo_def split: prod.splits)
  have u: "fst (snd (RemoveBubbleCommand_undo c w)) = c"
    by (simp add: RemoveBubbleCommand_undo_def Let_def split: option.splits)
  show ?case
    using r u Cons.IH
    by (cases call) (auto split: prod.splits)
qed

lemma move_apply_fields: "fst (snd (MoveBubbleCommand_apply c g w)) = c"
  by (simp add: MoveBubbleCommand_apply_def Let_def split: option.splits)

lemma run_move_fields: "fst (run_move c w calls) = c"
proof (induction calls arbitrary: w)
  case Nil
  then show ?case by simp
next
  case (Cons call calls)
  have r: "fst (snd (MoveBubbleCommand_redo c w)) = c" "fst (snd (MoveBubbleCommand_undo c w)) = c"
    by (simp_all add: MoveBubbleCommand_redo_def MoveBubbleCommand_undo_def move_apply_fields)
  show ?case
    using r Cons.IH
    by (cases call) (auto split: prod.splits)
qed

lemma add_redo_fields:
  "fst (snd (AddBubbleCommand_redo a w)) =
     a\<lparr>ab_list_item := fst (add_bubble (w\<lparr>scene := insert (ab_rect a) (scene w)\<rparr>) (ab_rect a))\<rparr>"
  by (simp add: AddBubbleCommand_redo_def Let_def split: prod.splits)

lemma add_undo_fields: "fst (snd (AddBubbleCommand_undo a w)) = a"
  by (simp add: AddBubbleCommand_undo_def split: prod.splits)

lemma run_add_rect: "ab_rect (fst (run_add a w calls)) = ab_rect a"
proof (induction calls arbitrary: a w)
  case Nil
  then show ?case by simp
next
  case (Cons call calls)
  have r: "ab_rect (fst (snd (AddBubbleCommand_redo a w))) = ab_rect a"
    by (simp add: add_redo_fields)
  have u: "ab_rect (fst (snd (AddBubbleCommand_undo a w))) = ab_rect a"
    by (simp add: add_undo_fields)
  show ?case
  proof (cases call)
    case Redo
    obtain e a' w' where x: "AddBubbleCommand_redo a w = (e, a', w')"
      by (cases "AddBubbleCommand_redo a w") auto
    with r have "ab_rect a' = ab_rect a" by simp
    with Redo x Cons.IH [of a' w'] show ?thesis by simp
  next
    case Undo
    obtain e a' w' where x: "AddBubbleCommand_undo a w = (e, a', w')"
      by (cases "AddBubbleCommand_undo a w") auto
    with u have "ab_rect a' = ab_rect a" by simp
    with Undo x Cons.IH [of a' w'] show ?thesis by simp
  qed
qed

text \<open>
  Claim C2, amended. No sequence of \<open>redo\<close> and \<open>undo\<close> calls changes a field of a
  \<open>RemoveBubbleCommand\<close> or of a \<open>MoveBubbleCommand\<close>. An \<open>AddBubbleCommand\<close> keeps its
  rectangle, and its \<open>undo\<close> changes nothing of it, but every \<open>redo\<close> assigns to its field
  \<open>list_item\<close> what \<open>_add_bubble\<close> returns.
\<close>

theorem command_fields:
  "fst (run_remove c w calls) = c \<and>
   fst (run_move m w calls) = m \<and>
   ab_rect (fst (run_add a w calls)) = ab_rect a \<and>
   fst (snd (AddBubbleCommand_undo a w)) = a \<and>
   fst (snd (AddBubbleCommand_redo a w)) =
     a\<lparr>ab_list_item := fst (add_bubble (w\<lparr>scene := insert (ab_rect a) (scene w)\<rparr>) (ab_rect a))\<rparr>"
  by (simp add: run_remove_fields run_move_fields run_add_rect add_undo_fields add_redo_fields)

text \<open>
  The claim as stated fails for \<open>AddBubbleCommand\<close>: constructed with \<open>list_item = None\<close>,
  after one \<open>redo\<close> on an empty registry it holds the new list item.
\<close>

lemma add_redo_demo:
  "ab_list_item (fst (run_add (AddBubbleCommand_init 0) (MainWindow_init demo_objs) [Redo])) = Some 0"
  by code_simp

theorem add_command_mutated_counterexample:
  "ab_list_item (AddBubbleCommand_init 0) = None \<and>
   ab_list_item (fst (run_add (AddBubbleCommand_init 0) (MainWindow_init demo_objs) [Redo])) = Some 0 \<and>
   fst (run_add (AddBubbleCommand_init 0) (MainWindow_init demo_objs) [Redo]) \<noteq>
     AddBubbleCommand_init 0"
proof -
  have n: "ab_list_item (AddBubbleCommand_init 0) = None"
    by (simp add: AddBubbleCommand_init_def)
  then have "fst (run_add (AddBubbleCommand_init 0) (MainWindow_init demo_objs) [Redo]) \<noteq>
     AddBubbleCommand_init 0"
    using add_redo_demo by (metis option.distinct(1))
  with n add_redo_demo show ?thesis by simp
qed

subsection \<open>MoveBubbleCommand (claim C4)\<close>

lemma move_apply_geometry:
  assumes "rect_objs w (mb_item c) \<noteq> None"
  shows "\<exists>w'. MoveBubbleCommand_apply c g w = (None, c, w') \<and>
              geometry w' (mb_item c) = Some (placed g) \<and> rect_objs w' (mb_item c) \<noteq> None"
  using assms
  by (auto simp: MoveBubbleCommand_apply_def Let_def geometry_def placed_def)

text \<open>
  Claim C4. For a \<open>MoveBubbleCommand\<close> built for a rectangle item with \<open>old_geom\<close> and
  \<open>new_geom\<close>: \<open>redo\<close> sets the item's position to \<open>(new_geom.x, new_geom.y)\<close> and its local
  rectangle to \<open>(0, 0, new_geom.width, new_geom.height)\<close>, \<open>undo\<close> does the same from
  \<open>old_geom\<close>, and \<open>undo\<close> after \<open>redo\<close> leaves the item with the geometry that \<open>old_geom\<close>
  describes.
\<close>

theorem move_command_inverts:
  assumes "rect_objs w item \<noteq> None" and "c = MoveBubbleCommand_init item old_geom new_geom"
  shows "\<exists>w1 w2 w3.
           MoveBubbleCommand_redo c w = (None, c, w1) \<and>
           geometry w1 item = Some (placed new_geom) \<and>
           MoveBubbleCommand_undo c w = (None, c, w2) \<and>
           geometry w2 item = Some (placed old_geom) \<and>
           MoveBubbleCommand_undo c w1 = (None, c, w3) \<and>
           geometry w3 item = Some (placed old_geom)"
proof -
  have f: "mb_item c = item" "mb_old c = old_geom" "mb_new c = new_geom"
    using assms(2) by (simp_all add: MoveBubbleCommand_init_def)
  from move_apply_geometry [of w c new_geom] assms(1) f obtain w1 where
    r: "MoveBubbleCommand_redo c w = (None, c, w1)" "geometry w1 item = Some (placed new_geom)"
      "rect_objs w1 item \<noteq> None"
    by (auto simp: MoveBubbleCommand_redo_def)
  from move_apply_geometry [of w c old_geom] assms(1) f obtain w2 where
    u: "MoveBubbleCommand_undo c w = (None, c, w2)" "geometry w2 item = Some (placed old_geom)"
    by (auto simp: MoveBubbleCommand_undo_def)
  from move_apply_geometry [of w1 c old_geom] r(3) f obtain w3 where
    v: "MoveBubbleCommand_undo c w1 = (None, c, w3)" "geometry w3 item = Some (placed old_geom)"
    by (auto simp: MoveBubbleCommand_undo_def)
  from r u v show ?thesis by blast
qed

theorem move_command_inverts_witness:
  "\<exists>w1 w3.
     MoveBubbleCommand_redo (MoveBubbleCommand_init 0 demo_old demo_new) (MainWindow_init demo_objs) =
       (None, MoveBubbleCommand_init 0 demo_old demo_new, w1) \<and>
     geometry w1 0 =
       Some ((Finite 15.5, Finite 25),
             \<lparr>qx = Finite 0, qy = Finite 0, qwidth = Finite 60, qheight = Finite 35.25\<rparr>) \<and>
     MoveBubbleCommand_undo (MoveBubbleCommand_init 0 demo_old demo_new) w1 =
       (None, MoveBubbleCommand_init 0 demo_old demo_new, w3) \<and>
     geometry w3 0 =
       Some ((Finite 10, Finite 20),
             \<lparr>qx = Finite 0, qy = Finite 0, qwidth = Finite 30, qheight = Finite 40\<rparr>)"
proof -
  have h: "rect_objs (MainWindow_init demo_objs) 0 \<noteq> None"
    by (simp add: MainWindow_init_def demo_objs_def)
  from move_command_inverts [OF h refl, of demo_old demo_new] obtain w1 w2 w3 where
    "MoveBubbleCommand_redo (MoveBubbleCommand_init 0 demo_old demo_new) (MainWindow_init demo_objs) =
       (None, MoveBubbleCommand_init 0 demo_old demo_new, w1)"
    "geometry w1 0 = Some (placed demo_new)"
    "MoveBubbleCommand_undo (MoveBubbleCommand_init 0 demo_old demo_new) w1 =
       (None, MoveBubbleCommand_init 0 demo_old demo_new, w3)"
    "geometry w3 0 = Some (placed demo_old)"
    by blast
  then show ?thesis
    by (auto simp: placed_def demo_old_def demo_new_def)
qed

subsection \<open>Page navigation (claim C8)\<close>




































end
